theory Spec2Isabelle
  imports Main
begin

section \<open>Errors, pastes and collaborators\<close>

text \<open>
  The repository holds three revisions of the monitor: the cache variant (pbmon.go, a
  bigcache of key to date), the cursor variant (topKey kept in memory only) and the
  state-file variant (topKey written to a file after every processed paste). Go errors
  are values: \<open>Error msg\<close> stands for \<open>errors.New(msg)\<close> and for whatever error a
  collaborator hands back, \<open>Errorf prefix err\<close> for \<open>fmt.Errorf("prefix: %w", err)\<close>.
\<close>

datatype error =
    Error string
  | Errorf string error
  | EOF
  | ErrEntryNotFound

text \<open>The error at the bottom of a chain of \<open>%w\<close> wrappers (repeated errors.Unwrap).\<close>

fun cause :: "error \<Rightarrow> error" where
  "cause (Errorf prefix err) = cause err"
| "cause (Error msg) = Error msg"
| "cause EOF = EOF"
| "cause ErrEntryNotFound = ErrEntryNotFound"

text \<open>
  pastebin.Paste belongs to the gopastebin library; these are the fields the monitor
  reads. The type of Date is left open, its \<open>String()\<close> rendering is a parameter of the
  cache variant.
\<close>

record 'd Paste =
  Key :: string
  Date :: 'd
  Title :: string
  User :: string
  Syntax :: string
  FullURL :: string

text \<open>
  The pastebin client and the callback act on the outside world \<open>'w\<close>: each call takes
  the world and returns the new one together with its result.
\<close>

record ('d, 'b, 'w) client =
  GetRaw :: "string \<Rightarrow> 'w \<Rightarrow> (error + 'b) \<times> 'w"
  OnNew :: "'d Paste \<Rightarrow> 'b \<Rightarrow> 'w \<Rightarrow> error option \<times> 'w"

text \<open>The methods of \<open>*os.File\<close> that the state-file variant calls.\<close>

record 'w stateFile =
  Name :: string
  Truncate :: "int \<Rightarrow> 'w \<Rightarrow> error option \<times> 'w"
  Seek :: "int \<Rightarrow> int \<Rightarrow> 'w \<Rightarrow> error option \<times> 'w"
  WriteString :: "string \<Rightarrow> 'w \<Rightarrow> error option \<times> 'w"

text \<open>The two methods of \<open>*bigcache.BigCache\<close> that the cache variant calls.\<close>

record 'c bigcache =
  cacheGet :: "string \<Rightarrow> 'c \<Rightarrow> error + string"
  cacheSet :: "string \<Rightarrow> string \<Rightarrow> 'c \<Rightarrow> error option \<times> 'c"

section \<open>processPaste (all three variants)\<close>

definition processPaste :: "('d, 'b, 'w) client \<Rightarrow> 'd Paste \<Rightarrow> 'w \<Rightarrow> error option \<times> 'w" where
  "processPaste cl paste w =
     (case GetRaw cl (Key paste) w of
        (Inl err, w') \<Rightarrow> (Some (Errorf ''pastebin.GetRaw'' err), w')
      | (Inr body, w') \<Rightarrow> OnNew cl paste body w')"

text \<open>\<open>for _, pp := range pastes { err := p.processPaste(pp); if err != nil { return err } }\<close>\<close>

fun processRange :: "('d, 'b, 'w) client \<Rightarrow> 'd Paste list \<Rightarrow> 'w \<Rightarrow> error option \<times> 'w" where
  "processRange cl [] w = (None, w)"
| "processRange cl (pp # pastes) w =
     (case processPaste cl pp w of
        (Some err, w') \<Rightarrow> (Some err, w')
      | (None, w') \<Rightarrow> processRange cl pastes w')"

section \<open>Cursor variant (topKey in memory)\<close>

text \<open>
  The scan of fetchNewPastes: matchPos starts at \<open>len(pastes) - 1\<close> and every index
  whose key equals topKey overwrites it, so the last match wins.
\<close>

definition matchPos :: "'d Paste list \<Rightarrow> string \<Rightarrow> nat" where
  "matchPos pastes topKey =
     fold (\<lambda>i m. if Key (pastes ! i) = topKey then i else m)
       [0..<length pastes] (length pastes - 1)"

text \<open>
  fetchNewPastes of the cursor variant. \<open>fetched\<close> is what \<open>p.recent(recentSize)\<close>
  returned (the HTTP request and the JSON decoding are the transport's); the state is
  topKey. The result is the returned slice or error, and the new topKey.
\<close>

definition fetchNewPastes_cursor ::
  "(error + 'd Paste list) \<Rightarrow> string \<Rightarrow> (error + 'd Paste list) \<times> string" where
  "fetchNewPastes_cursor fetched topKey =
     (case fetched of
        Inl err \<Rightarrow> (Inl err, topKey)
      | Inr pastes \<Rightarrow>
          if length pastes = 0 then (Inl (Error ''no pastes available''), topKey)
          else if topKey = [] then (Inr [], Key (pastes ! 0))
          else (Inr (take (matchPos pastes topKey) pastes), Key (pastes ! 0)))"

text \<open>
  The ticker loop of Do. The list holds what recent returns on each coming tick; the
  loop only leaves through an error, so with the list used up the model answers None:
  Do is still waiting for a tick.
\<close>

fun ticks_cursor ::
  "('d, 'b, 'w) client \<Rightarrow> (error + 'd Paste list) list \<Rightarrow> string \<Rightarrow> 'w \<Rightarrow>
     error option \<times> string \<times> 'w" where
  "ticks_cursor cl [] topKey w = (None, topKey, w)"
| "ticks_cursor cl (fetched # later) topKey w =
     (case fetchNewPastes_cursor fetched topKey of
        (Inl err, topKey') \<Rightarrow> (Some err, topKey', w)
      | (Inr pastes, topKey') \<Rightarrow>
          (case processRange cl pastes w of
             (Some err, w') \<Rightarrow> (Some err, topKey', w')
           | (None, w') \<Rightarrow> ticks_cursor cl later topKey' w'))"

text \<open>Do: one call of fetchNewPastes whose pastes are dropped, then the ticker loop.\<close>

fun Do_cursor ::
  "('d, 'b, 'w) client \<Rightarrow> (error + 'd Paste list) list \<Rightarrow> string \<Rightarrow> 'w \<Rightarrow>
     error option \<times> string \<times> 'w" where
  "Do_cursor cl [] topKey w = (None, topKey, w)"
| "Do_cursor cl (fetched # later) topKey w =
     (case fetchNewPastes_cursor fetched topKey of
        (Inl err, topKey') \<Rightarrow> (Some err, topKey', w)
      | (Inr pastes, topKey') \<Rightarrow> ticks_cursor cl later topKey' w)"

section \<open>State-file variant (topKey persisted after every paste)\<close>

text \<open>
  fetchNewPastes of the state-file variant: errors of recent are wrapped, and topKey is
  only assigned on the first run; otherwise it is left to the loop of \<open>do\<close>.
\<close>

definition fetchNewPastes_state ::
  "(error + 'd Paste list) \<Rightarrow> string \<Rightarrow> (error + 'd Paste list) \<times> string" where
  "fetchNewPastes_state fetched topKey =
     (case fetched of
        Inl err \<Rightarrow> (Inl (Errorf ''recent pastes'' err), topKey)
      | Inr pastes \<Rightarrow>
          if length pastes = 0 then (Inl (Error ''no pastes available''), topKey)
          else if topKey = [] then (Inr [], Key (pastes ! 0))
          else (Inr (take (matchPos pastes topKey) pastes), topKey))"

text \<open>
  The loop of \<open>do\<close>, \<open>for i := len(pastes) - 1; i >= 0; i--\<close>: the counter \<open>n\<close> is
  \<open>i + 1\<close>, so \<open>Suc i\<close> handles \<open>pastes[i]\<close> and goes on with \<open>i\<close>.
\<close>

fun doLoop ::
  "('d, 'b, 'w) client \<Rightarrow> 'w stateFile \<Rightarrow> 'd Paste list \<Rightarrow> nat \<Rightarrow> string \<Rightarrow> 'w \<Rightarrow>
     error option \<times> string \<times> 'w" where
  "doLoop cl f pastes 0 topKey w = (None, topKey, w)"
| "doLoop cl f pastes (Suc i) topKey w =
     (case processPaste cl (pastes ! i) w of
        (Some err, w1) \<Rightarrow> (Some (Errorf ''process paste'' err), topKey, w1)
      | (None, w1) \<Rightarrow>
     (case Truncate f 0 w1 of
        (Some err, w2) \<Rightarrow> (Some (Errorf (''truncate '' @ Name f) err), topKey, w2)
      | (None, w2) \<Rightarrow>
     (case Seek f 0 0 w2 of
        (Some err, w3) \<Rightarrow>
          (Some (Errorf (''seek to the beginning of '' @ Name f) err), topKey, w3)
      | (None, w3) \<Rightarrow>
     (case WriteString f (Key (pastes ! i)) w3 of
        (Some err, w4) \<Rightarrow> (Some (Errorf (''save state to '' @ Name f) err), topKey, w4)
      | (None, w4) \<Rightarrow> doLoop cl f pastes i (Key (pastes ! i)) w4))))"

definition do_state ::
  "('d, 'b, 'w) client \<Rightarrow> 'w stateFile \<Rightarrow> (error + 'd Paste list) \<Rightarrow> string \<Rightarrow> 'w \<Rightarrow>
     error option \<times> string \<times> 'w" where
  "do_state cl f fetched topKey w =
     (case fetchNewPastes_state fetched topKey of
        (Inl err, topKey') \<Rightarrow> (Some (Errorf ''fetch pastes'' err), topKey', w)
      | (Inr pastes, topKey') \<Rightarrow> doLoop cl f pastes (length pastes) topKey' w)"

text \<open>
  Do: \<open>do\<close> once, then \<open>do\<close> on every tick. Both return on the first error, so one
  recursion over the coming results of recent covers the first call and the ticks.
\<close>

fun Do_state ::
  "('d, 'b, 'w) client \<Rightarrow> 'w stateFile \<Rightarrow> (error + 'd Paste list) list \<Rightarrow> string \<Rightarrow> 'w \<Rightarrow>
     error option \<times> string \<times> 'w" where
  "Do_state cl f [] topKey w = (None, topKey, w)"
| "Do_state cl f (fetched # later) topKey w =
     (case do_state cl f fetched topKey w of
        (Some err, topKey', w') \<Rightarrow> (Some err, topKey', w')
      | (None, topKey', w') \<Rightarrow> Do_state cl f later topKey' w')"

text \<open>
  readState: \<open>Read\<close> fills a buffer of pasteIDLen zero bytes and the whole buffer is
  returned as the string. \<open>rd n w\<close> is \<open>r.Read\<close> on a buffer of \<open>n\<close> bytes: the bytes it
  read and its error.
\<close>

definition pasteIDLen :: nat where
  "pasteIDLen = 9"

definition readState ::
  "(nat \<Rightarrow> 'w \<Rightarrow> (string \<times> error option) \<times> 'w) \<Rightarrow> 'w \<Rightarrow> (error + string) \<times> 'w" where
  "readState rd w =
     (case rd pasteIDLen w of
        ((got, err), w') \<Rightarrow>
          if err = Some EOF then (Inr [], w')
          else (case err of
                  Some e \<Rightarrow> (Inl (Errorf ''read state file'' e), w')
                | None \<Rightarrow>
                    (Inr (take pasteIDLen (got @ replicate (pasteIDLen - length got) (CHR 0x00))),
                     w')))"

section \<open>Cache variant\<close>

text \<open>
  The loop of fetchNewPastes over the fetched pastes; \<open>new\<close> is newPastes so far.
  \<open>dateString\<close> is \<open>paste.Date.String()\<close>.
\<close>

fun cacheLoop ::
  "'c bigcache \<Rightarrow> ('d \<Rightarrow> string) \<Rightarrow> 'd Paste list \<Rightarrow> 'd Paste list \<Rightarrow> 'c \<Rightarrow>
     ('d Paste list \<times> error option) \<times> 'c" where
  "cacheLoop bc dateString [] new c = ((new, None), c)"
| "cacheLoop bc dateString (paste # pastes) new c =
     (case cacheGet bc (Key paste) c of
        Inr v \<Rightarrow>
          if v = dateString (Date paste) then cacheLoop bc dateString pastes new c
          else (case cacheSet bc (Key paste) (dateString (Date paste)) c of
                  (Some err, c') \<Rightarrow> ((new, Some err), c')
                | (None, c') \<Rightarrow> cacheLoop bc dateString pastes (new @ [paste]) c')
      | Inl err \<Rightarrow>
          if err = ErrEntryNotFound
          then (case cacheSet bc (Key paste) (dateString (Date paste)) c of
                  (Some err, c') \<Rightarrow> ((new, Some err), c')
                | (None, c') \<Rightarrow> cacheLoop bc dateString pastes (new @ [paste]) c')
          else ((new, Some err), c))"

definition fetchNewPastes_cache ::
  "'c bigcache \<Rightarrow> ('d \<Rightarrow> string) \<Rightarrow> (error + 'd Paste list) \<Rightarrow> 'c \<Rightarrow>
     ('d Paste list \<times> error option) \<times> 'c" where
  "fetchNewPastes_cache bc dateString fetched c =
     (case fetched of
        Inl err \<Rightarrow> (([], Some err), c)
      | Inr pastes \<Rightarrow> cacheLoop bc dateString pastes [] c)"

fun ticks_cache ::
  "'c bigcache \<Rightarrow> ('d \<Rightarrow> string) \<Rightarrow> ('d, 'b, 'w) client \<Rightarrow> (error + 'd Paste list) list \<Rightarrow>
     'c \<Rightarrow> 'w \<Rightarrow> error option \<times> 'c \<times> 'w" where
  "ticks_cache bc dateString cl [] c w = (None, c, w)"
| "ticks_cache bc dateString cl (fetched # later) c w =
     (case fetchNewPastes_cache bc dateString fetched c of
        ((pastes, Some err), c') \<Rightarrow> (Some err, c', w)
      | ((pastes, None), c') \<Rightarrow>
          (case processRange cl pastes w of
             (Some err, w') \<Rightarrow> (Some err, c', w')
           | (None, w') \<Rightarrow> ticks_cache bc dateString cl later c' w'))"

fun Do_cache ::
  "'c bigcache \<Rightarrow> ('d \<Rightarrow> string) \<Rightarrow> ('d, 'b, 'w) client \<Rightarrow> (error + 'd Paste list) list \<Rightarrow>
     'c \<Rightarrow> 'w \<Rightarrow> error option \<times> 'c \<times> 'w" where
  "Do_cache bc dateString cl [] c w = (None, c, w)"
| "Do_cache bc dateString cl (fetched # later) c w =
     (case fetchNewPastes_cache bc dateString fetched c of
        ((pastes, Some err), c') \<Rightarrow> (Some err, c', w)
      | ((pastes, None), c') \<Rightarrow> ticks_cache bc dateString cl later c' w)"

section \<open>In-memory collaborators\<close>

text \<open>
  A world to run the monitor in: the bytes of the state file, the position of the open
  handle, and the pastes the callback was handed, in the order of the calls.
\<close>

record 'd disk =
  content :: string
  offset :: nat
  calls :: "'d Paste list"

text \<open>
  The file operations as the operating system performs them on a regular file:
  Truncate changes the size and leaves the position alone, a write beyond the end fills
  the gap with zero bytes, Read at the end of the file answers io.EOF.
\<close>

definition memTruncate :: "int \<Rightarrow> 'd disk \<Rightarrow> error option \<times> 'd disk" where
  "memTruncate sz w =
     (if sz < 0 then (Some (Error ''invalid argument''), w)
      else (None, w\<lparr>content :=
              take (nat sz) (content w) @
              replicate (nat sz - length (content w)) (CHR 0x00)\<rparr>))"

definition memSeek :: "int \<Rightarrow> int \<Rightarrow> 'd disk \<Rightarrow> error option \<times> 'd disk" where
  "memSeek off whence w =
     (let base = (if whence = 0 then 0
                  else if whence = 1 then int (offset w)
                  else int (length (content w)))
      in if whence < 0 \<or> 2 < whence \<or> base + off < 0
         then (Some (Error ''invalid argument''), w)
         else (None, w\<lparr>offset := nat (base + off)\<rparr>))"

definition memWriteString :: "string \<Rightarrow> 'd disk \<Rightarrow> error option \<times> 'd disk" where
  "memWriteString s w =
     (None, w\<lparr>content :=
              take (offset w) (content w) @
              replicate (offset w - length (content w)) (CHR 0x00) @ s @
              drop (offset w + length s) (content w),
            offset := offset w + length s\<rparr>)"

definition memRead :: "nat \<Rightarrow> 'd disk \<Rightarrow> (string \<times> error option) \<times> 'd disk" where
  "memRead n w =
     (let rest = drop (offset w) (content w)
      in if n = 0 then (([], None), w)
         else if rest = [] then (([], Some EOF), w)
         else ((take n rest, None), w\<lparr>offset := offset w + min n (length rest)\<rparr>))"

definition memFile :: "string \<Rightarrow> 'd disk stateFile" where
  "memFile name =
     \<lparr>Name = name, Truncate = memTruncate, Seek = memSeek, WriteString = memWriteString\<rparr>"

text \<open>The file as the next run of the program opens it: same bytes, position 0.\<close>

definition reopen :: "'d disk \<Rightarrow> 'd disk" where
  "reopen w = w\<lparr>offset := 0\<rparr>"

text \<open>
  A client whose GetRaw always answers (with the key as body) and whose callback notes
  the paste it was called with and fails on the pastes \<open>fails\<close> selects.
\<close>

definition spyClient :: "('d Paste \<Rightarrow> bool) \<Rightarrow> ('d, string, 'd disk) client" where
  "spyClient fails =
     \<lparr>GetRaw = (\<lambda>key w. (Inr key, w)),
      OnNew = (\<lambda>paste body w.
        (if fails paste then Some (Error ''callback failed'') else None,
         w\<lparr>calls := calls w @ [paste]\<rparr>))\<rparr>"

text \<open>
  bigcache inside its retention window, as section 4.3 of the specification describes
  it: a map from key to freshness token. Get answers ErrEntryNotFound for an absent key,
  Set stores the entry. Eviction is the removal of entries between two polls.
\<close>

definition mapCache :: "(string \<rightharpoonup> string) bigcache" where
  "mapCache =
     \<lparr>cacheGet = (\<lambda>key c. case c key of None \<Rightarrow> Inl ErrEntryNotFound | Some v \<Rightarrow> Inr v),
      cacheSet = (\<lambda>key v c. (None, c(key \<mapsto> v)))\<rparr>"

text \<open>The pastes of the scenarios of the specification: keys c, b, a, newest first.\<close>

definition mkPaste :: "string \<Rightarrow> 'd \<Rightarrow> 'd Paste" where
  "mkPaste k t = \<lparr>Key = k, Date = t, Title = [], User = [], Syntax = [], FullURL = []\<rparr>"

definition window3 :: "nat Paste list" where
  "window3 = [mkPaste ''c'' 3, mkPaste ''b'' 2, mkPaste ''a'' 1]"

definition disk0 :: "nat disk" where
  "disk0 = \<lparr>content = [], offset = 0, calls = []\<rparr>"

text \<open>
  A world in which any collaborator call may fail: \<open>clock\<close> counts the calls made so
  far and \<open>plan n\<close> is the error, if any, that call number \<open>n\<close> answers with. Every
  method of the client and of the file is one \<open>attempt\<close>.
\<close>

record flaky =
  clock :: nat
  plan :: "nat \<Rightarrow> error option"

definition attempt :: "flaky \<Rightarrow> error option \<times> flaky" where
  "attempt w = (plan w (clock w), w\<lparr>clock := Suc (clock w)\<rparr>)"

definition flakyClient :: "('d, string, flaky) client" where
  "flakyClient =
     \<lparr>GetRaw = (\<lambda>key w. case attempt w of
                   (Some err, w') \<Rightarrow> (Inl err, w')
                 | (None, w') \<Rightarrow> (Inr key, w')),
      OnNew = (\<lambda>paste body w. attempt w)\<rparr>"

definition flakyFile :: "flaky stateFile" where
  "flakyFile =
     \<lparr>Name = ''.pbmon'', Truncate = (\<lambda>sz w. attempt w), Seek = (\<lambda>off whence w. attempt w),
      WriteString = (\<lambda>s w. attempt w)\<rparr>"

text \<open>
  A run from \<open>w\<close> to \<open>w'\<close> with result \<open>r\<close> is loud when every call that failed during
  the run was the last call of the run and its error is the cause of \<open>r\<close>.
\<close>

definition loud :: "flaky \<Rightarrow> error option \<Rightarrow> flaky \<Rightarrow> bool" where
  "loud w r w' \<longleftrightarrow>
     plan w' = plan w \<and> clock w \<le> clock w' \<and>
     (\<forall>n e. clock w \<le> n \<and> n < clock w' \<and> plan w n = Some e \<longrightarrow>
        Suc n = clock w' \<and> (\<exists>e'. r = Some e' \<and> cause e' = cause e))"

text \<open>
  A cache whose Get always answers \<open>got\<close> and whose Set always answers \<open>put\<close>.
\<close>

definition stubCache :: "error + string \<Rightarrow> error option \<Rightarrow> unit bigcache" where
  "stubCache got put = \<lparr>cacheGet = (\<lambda>key c. got), cacheSet = (\<lambda>key v c. (put, c))\<rparr>"

text \<open>
  A plan in which the third call (call number 2) fails and all others succeed.
\<close>

definition failThird :: "nat \<Rightarrow> error option" where
  "failThird n = (if n = 2 then Some (Error ''i/o error'') else None)"

section \<open>The scan and the dispatch loop\<close>

text \<open>
  What the scan computes: the last index that holds topKey, and \<open>len(pastes) - 1\<close>
  when no index does. With unique keys the last index is the only one.
\<close>

lemma fold_scan_absent:
  "\<forall>j<n. Key (ps ! j) \<noteq> k \<Longrightarrow>
   fold (\<lambda>i m. if Key (ps ! i) = k then i else m) [0..<n] m0 = m0"
  by (induction n) simp_all

lemma fold_scan_last:
  "i < n \<Longrightarrow> Key (ps ! i) = k \<Longrightarrow> \<forall>j. i < j \<and> j < n \<longrightarrow> Key (ps ! j) \<noteq> k \<Longrightarrow>
   fold (\<lambda>i m. if Key (ps ! i) = k then i else m) [0..<n] m0 = i"
proof (induction n)
  case 0
  then show ?case by simp
next
  case (Suc n)
  show ?case
  proof (cases "i = n")
    case True
    with Suc.prems show ?thesis by simp
  next
    case False
    with Suc.prems have "i < n" by simp
    moreover from Suc.prems \<open>i < n\<close> have "Key (ps ! n) \<noteq> k" by simp
    moreover from Suc.prems have "\<forall>j. i < j \<and> j < n \<longrightarrow> Key (ps ! j) \<noteq> k" by simp
    ultimately show ?thesis using Suc.IH Suc.prems(2) by simp
  qed
qed

lemma matchPos_last:
  "i < length ps \<Longrightarrow> Key (ps ! i) = k \<Longrightarrow>
   \<forall>j. i < j \<and> j < length ps \<longrightarrow> Key (ps ! j) \<noteq> k \<Longrightarrow> matchPos ps k = i"
  unfolding matchPos_def by (rule fold_scan_last)

lemma matchPos_distinct:
  assumes "distinct (map Key ps)" "i < length ps" "Key (ps ! i) = k"
  shows "matchPos ps k = i"
proof (rule matchPos_last [OF assms(2,3)], intro allI impI)
  fix j assume j: "i < j \<and> j < length ps"
  from assms(1) have "\<forall>a<length ps. \<forall>b<length ps. a \<noteq> b \<longrightarrow> Key (ps ! a) \<noteq> Key (ps ! b)"
    by (simp add: distinct_conv_nth)
  with assms(2,3) j show "Key (ps ! j) \<noteq> k" by auto
qed

lemma matchPos_absent:
  "\<forall>p\<in>set ps. Key p \<noteq> k \<Longrightarrow> matchPos ps k = length ps - 1"
  unfolding matchPos_def by (rule fold_scan_absent) simp


lemma doLoop_topKey:
  "doLoop cl f ps n k w = (None, k', w') \<Longrightarrow> k' = (if n = 0 then k else Key (ps ! 0))"
proof (induction n arbitrary: k w)
  case 0
  then show ?case by simp
next
  case (Suc n)
  from Suc.prems obtain w4 where "doLoop cl f ps n (Key (ps ! n)) w4 = (None, k', w')"
    by (auto split: prod.splits option.splits)
  from Suc.IH [OF this] show ?case by (cases n) simp_all
qed

lemma processPaste_spy:
  "processPaste (spyClient fails) p w =
     (if fails p then Some (Error ''callback failed'') else None, w\<lparr>calls := calls w @ [p]\<rparr>)"
  by (simp add: processPaste_def spyClient_def)

lemma persist_mem:
  "Truncate (memFile nm) 0 w = (None, w\<lparr>content := []\<rparr>)"
  "Seek (memFile nm) 0 0 w = (None, w\<lparr>offset := 0\<rparr>)"
  "WriteString (memFile nm) s (w\<lparr>content := [], offset := 0\<rparr>) =
     (None, w\<lparr>content := s, offset := length s\<rparr>)"
  by (simp_all add: memFile_def memTruncate_def memSeek_def memWriteString_def)

lemma doLoop_spy_step:
  "doLoop (spyClient fails) (memFile nm) ps (Suc i) k w =
     (if fails (ps ! i)
      then (Some (Errorf ''process paste'' (Error ''callback failed'')), k,
            w\<lparr>calls := calls w @ [ps ! i]\<rparr>)
      else doLoop (spyClient fails) (memFile nm) ps i (Key (ps ! i))
             \<lparr>content = Key (ps ! i), offset = length (Key (ps ! i)),
              calls = calls w @ [ps ! i]\<rparr>)"
  by (cases w)
    (simp add: processPaste_spy memFile_def memTruncate_def memSeek_def memWriteString_def)

lemma doLoop_spy_ok:
  "n \<le> length ps \<Longrightarrow> \<forall>p\<in>set (take n ps). \<not> fails p \<Longrightarrow>
   doLoop (spyClient fails) (memFile nm) ps n k w =
     (None, if n = 0 then k else Key (ps ! 0),
      if n = 0 then w
      else \<lparr>content = Key (ps ! 0), offset = length (Key (ps ! 0)),
            calls = calls w @ rev (take n ps)\<rparr>)"
proof (induction n arbitrary: k w)
  case 0
  then show ?case by simp
next
  case (Suc n)
  from Suc.prems have n: "n < length ps" by simp
  with Suc.prems have nf: "\<not> fails (ps ! n)" and rest: "\<forall>p\<in>set (take n ps). \<not> fails p"
    by (simp_all add: take_Suc_conv_app_nth)
  from n have le: "n \<le> length ps" by simp
  show ?case
    unfolding doLoop_spy_step using nf n
    by (simp add: Suc.IH [OF le rest] take_Suc_conv_app_nth del: doLoop.simps)
qed


lemma window3_facts:
  "window3 \<noteq> []" "distinct (map Key window3)" "length window3 = 3"
  "Key (window3 ! 0) = ''c''" "Key (window3 ! 2) = ''a''"
  by (simp_all add: window3_def mkPaste_def)

lemma do_state_spy_ok:
  assumes "fetchNewPastes_state fetched k = (Inr ps, k1)" "\<forall>p\<in>set ps. \<not> fails p"
  shows "do_state (spyClient fails) (memFile nm) fetched k w =
     (None, if ps = [] then k1 else Key (ps ! 0),
      if ps = [] then w
      else \<lparr>content = Key (ps ! 0), offset = length (Key (ps ! 0)),
            calls = calls w @ rev ps\<rparr>)"
  using assms doLoop_spy_ok [of "length ps" ps fails nm k1 w]
  by (simp add: do_state_def del: doLoop.simps)

lemma same_window_nothing_new:
  assumes "distinct (map Key W)" "W \<noteq> []"
  shows "fetchNewPastes_cursor (Inr W) (Key (W ! 0)) = (Inr [], Key (W ! 0))"
    and "fetchNewPastes_state (Inr W) (Key (W ! 0)) = (Inr [], Key (W ! 0))"
proof -
  from assms have "matchPos W (Key (W ! 0)) = 0" by (simp add: matchPos_distinct)
  with assms(2) show "fetchNewPastes_cursor (Inr W) (Key (W ! 0)) = (Inr [], Key (W ! 0))"
    and "fetchNewPastes_state (Inr W) (Key (W ! 0)) = (Inr [], Key (W ! 0))"
    by (simp_all add: fetchNewPastes_cursor_def fetchNewPastes_state_def)
qed

lemma cursor_marker_after:
  "W \<noteq> [] \<Longrightarrow> snd (fetchNewPastes_cursor (Inr W) k) = Key (W ! 0)"
  by (simp add: fetchNewPastes_cursor_def)

lemma do_state_marker_after:
  assumes "do_state cl f (Inr W) k w = (None, k', w')" "W \<noteq> []"
  shows "k' = Key (W ! 0) \<or> (k' = k \<and> w' = w \<and> k \<noteq> [] \<and> matchPos W k = 0)"
proof (cases "k = []")
  case True
  with assms show ?thesis by (simp add: do_state_def fetchNewPastes_state_def)
next
  case False
  with assms have loop:
    "doLoop cl f (take (matchPos W k) W) (min (length W) (matchPos W k)) k w = (None, k', w')"
    by (simp add: do_state_def fetchNewPastes_state_def del: doLoop.simps)
  show ?thesis
  proof (cases "matchPos W k")
    case 0
    with loop False show ?thesis by simp
  next
    case (Suc m)
    from assms(2) obtain x xs where "W = x # xs" by (cases W) auto
    with doLoop_topKey [OF loop] Suc show ?thesis by simp
  qed
qed

section \<open>Cursor variants: what one poll detects\<close>

text \<open>
  Claim C4 (first run). For every non-empty window W and an unset marker (topKey is the
  empty string), fetchNewPastes returns no pastes and sets topKey to the key of W[0],
  in the cursor variant and in the state-file variant alike; a whole \<open>do\<close> cycle of
  the state-file variant then touches neither the client, the callback nor the file.
\<close>

theorem first_run_no_items:
  "W \<noteq> [] \<Longrightarrow>
     fetchNewPastes_cursor (Inr W) [] = (Inr [], Key (W ! 0)) \<and>
     fetchNewPastes_state (Inr W) [] = (Inr [], Key (W ! 0)) \<and>
     do_state cl f (Inr W) [] w = (None, Key (W ! 0), w)"
  by (simp add: fetchNewPastes_cursor_def fetchNewPastes_state_def do_state_def)

theorem first_run_no_items_witness:
  "window3 \<noteq> [] \<and>
   fetchNewPastes_cursor (Inr window3) [] = (Inr [], ''c'') \<and>
   fetchNewPastes_state (Inr window3) [] = (Inr [], ''c'') \<and>
   do_state (spyClient (\<lambda>p. False)) (memFile ''.pbmon'') (Inr window3) [] disk0 =
     (None, ''c'', disk0)"
  using first_run_no_items [of window3 "spyClient (\<lambda>p. False)" "memFile ''.pbmon''" disk0]
  by (simp add: window3_facts)

text \<open>
  Claim C7 (empty window). Whatever topKey is, an empty window makes fetchNewPastes
  return the error "no pastes available" and leaves topKey as it was. The ticker loop of
  the cursor variant and \<open>do\<close> and \<open>Do\<close> of the state-file variant return that error
  (wrapped by \<open>do\<close> as "fetch pastes: ...") with topKey and the world, so also the state
  file, unchanged.
\<close>

theorem empty_window_fails:
  "fetchNewPastes_cursor (Inr []) k = (Inl (Error ''no pastes available''), k) \<and>
   fetchNewPastes_state (Inr []) k = (Inl (Error ''no pastes available''), k) \<and>
   ticks_cursor cl (Inr [] # later) k w = (Some (Error ''no pastes available''), k, w) \<and>
   do_state cl f (Inr []) k w =
     (Some (Errorf ''fetch pastes'' (Error ''no pastes available'')), k, w) \<and>
   Do_state cl f (Inr [] # later) k w =
     (Some (Errorf ''fetch pastes'' (Error ''no pastes available'')), k, w)"
  by (simp add: fetchNewPastes_cursor_def fetchNewPastes_state_def do_state_def)

text \<open>
  Claim C1 (marker found), as amended. Let W have unique keys and hold the set marker k
  at position i. fetchNewPastes returns W[0..i) in window order, newest first; nothing
  in it reverses the slice. The cursor variant sets topKey to the key of W[0] at once,
  the state-file variant leaves topKey alone. In the state-file variant it is the loop
  of \<open>do\<close> that walks the slice backwards: with a callback that never fails the
  callback sees W[0..i) oldest first, and the cycle ends with topKey (and, when i > 0,
  the file) equal to the key of W[0].
\<close>

theorem delta_found_window_order:
  assumes "distinct (map Key W)" "i < length W" "Key (W ! i) = k" "k \<noteq> []"
  shows "fetchNewPastes_cursor (Inr W) k = (Inr (take i W), Key (W ! 0)) \<and>
         fetchNewPastes_state (Inr W) k = (Inr (take i W), k) \<and>
         do_state (spyClient (\<lambda>p. False)) (memFile nm) (Inr W) k w =
           (None, Key (W ! 0),
            if i = 0 then w
            else \<lparr>content = Key (W ! 0), offset = length (Key (W ! 0)),
                  calls = calls w @ rev (take i W)\<rparr>)"
proof -
  from assms have mp: "matchPos W k = i" by (simp add: matchPos_distinct)
  from assms(2) have ne: "W \<noteq> []" by auto
  have c: "fetchNewPastes_cursor (Inr W) k = (Inr (take i W), Key (W ! 0))"
    using mp ne assms(4) by (simp add: fetchNewPastes_cursor_def)
  have s: "fetchNewPastes_state (Inr W) k = (Inr (take i W), k)"
    using mp ne assms(4) by (simp add: fetchNewPastes_state_def)
  have d: "do_state (spyClient (\<lambda>p. False)) (memFile nm) (Inr W) k w =
           (None, Key (W ! 0),
            if i = 0 then w
            else \<lparr>content = Key (W ! 0), offset = length (Key (W ! 0)),
                  calls = calls w @ rev (take i W)\<rparr>)"
    using do_state_spy_ok [OF s, of "\<lambda>p. False" nm w] assms(2,3) by auto
  from c s d show ?thesis by simp
qed

theorem delta_found_window_order_witness:
  "distinct (map Key window3) \<and> 2 < length window3 \<and> Key (window3 ! 2) = ''a'' \<and>
   ''a'' \<noteq> [] \<and>
   fetchNewPastes_cursor (Inr window3) ''a'' =
     (Inr [mkPaste ''c'' 3, mkPaste ''b'' 2], ''c'') \<and>
   fetchNewPastes_state (Inr window3) ''a'' =
     (Inr [mkPaste ''c'' 3, mkPaste ''b'' 2], ''a'') \<and>
   do_state (spyClient (\<lambda>p. False)) (memFile ''.pbmon'') (Inr window3) ''a'' disk0 =
     (None, ''c'',
      \<lparr>content = ''c'', offset = 1, calls = [mkPaste ''b'' 2, mkPaste ''c'' 3]\<rparr>)"
  using delta_found_window_order [of window3 2 "''a''" "''.pbmon''" disk0]
  by (simp add: window3_def mkPaste_def disk0_def)

text \<open>
  The claim as written fails on fetchNewPastes: for the window c, b, a and the marker a
  both variants return c, b, which is not the reversed slice b, c, and the state-file
  variant hands back the marker a, not c.
\<close>

theorem delta_found_not_reversed:
  "Key (window3 ! 2) = ''a'' \<and>
   fetchNewPastes_cursor (Inr window3) ''a'' =
     (Inr [mkPaste ''c'' 3, mkPaste ''b'' 2], ''c'') \<and>
   fetchNewPastes_state (Inr window3) ''a'' =
     (Inr [mkPaste ''c'' 3, mkPaste ''b'' 2], ''a'') \<and>
   rev (take 2 window3) = [mkPaste ''b'' 2, mkPaste ''c'' 3] \<and>
   fst (fetchNewPastes_cursor (Inr window3) ''a'') \<noteq> Inr (rev (take 2 window3)) \<and>
   fetchNewPastes_state (Inr window3) ''a'' \<noteq> (Inr (rev (take 2 window3)), Key (window3 ! 0))"
  by (simp add: fetchNewPastes_cursor_def fetchNewPastes_state_def matchPos_def
        window3_def mkPaste_def)

text \<open>
  Claim C2 (marker rotated out), as amended. Let W be non-empty with no key equal to the
  set marker k. fetchNewPastes returns W[0..len-1) in window order, newest first. The
  cursor variant sets topKey to the key of W[0]. In the state-file variant the loop of
  \<open>do\<close> hands these pastes to the callback oldest first and ends with topKey and the
  file equal to the key of W[0] when W has at least two pastes; for a window of one
  paste nothing is dispatched and topKey stays k.
\<close>

theorem delta_gap_window_order:
  assumes "W \<noteq> []" "\<forall>p\<in>set W. Key p \<noteq> k" "k \<noteq> []"
  shows "fetchNewPastes_cursor (Inr W) k = (Inr (take (length W - 1) W), Key (W ! 0)) \<and>
         fetchNewPastes_state (Inr W) k = (Inr (take (length W - 1) W), k) \<and>
         do_state (spyClient (\<lambda>p. False)) (memFile nm) (Inr W) k w =
           (None, if length W = 1 then k else Key (W ! 0),
            if length W = 1 then w
            else \<lparr>content = Key (W ! 0), offset = length (Key (W ! 0)),
                  calls = calls w @ rev (take (length W - 1) W)\<rparr>)"
proof -
  from assms(2) have mp: "matchPos W k = length W - 1" by (rule matchPos_absent)
  have c: "fetchNewPastes_cursor (Inr W) k = (Inr (take (length W - 1) W), Key (W ! 0))"
    using mp assms(1,3) by (simp add: fetchNewPastes_cursor_def)
  have s: "fetchNewPastes_state (Inr W) k = (Inr (take (length W - 1) W), k)"
    using mp assms(1,3) by (simp add: fetchNewPastes_state_def)
  from assms(1) have len: "0 < length W" by simp
  have d: "do_state (spyClient (\<lambda>p. False)) (memFile nm) (Inr W) k w =
           (None, if length W = 1 then k else Key (W ! 0),
            if length W = 1 then w
            else \<lparr>content = Key (W ! 0), offset = length (Key (W ! 0)),
                  calls = calls w @ rev (take (length W - 1) W)\<rparr>)"
  proof (cases "length W = 1")
    case True
    with do_state_spy_ok [OF s, of "\<lambda>p. False" nm w] show ?thesis by simp
  next
    case False
    with len have "0 < length W - 1" by (cases W) auto
    then have "take (length W - 1) W ! 0 = W ! 0" "take (length W - 1) W \<noteq> []"
      using len by (simp_all del: One_nat_def)
    with do_state_spy_ok [OF s, of "\<lambda>p. False" nm w] False show ?thesis
      by (simp del: One_nat_def)
  qed
  from c s d show ?thesis by simp
qed

theorem delta_gap_window_order_witness:
  "window3 \<noteq> [] \<and> list_all (\<lambda>p. Key p \<noteq> ''z'') window3 \<and> ''z'' \<noteq> [] \<and>
   fetchNewPastes_cursor (Inr window3) ''z'' =
     (Inr [mkPaste ''c'' 3, mkPaste ''b'' 2], ''c'') \<and>
   fetchNewPastes_state (Inr window3) ''z'' =
     (Inr [mkPaste ''c'' 3, mkPaste ''b'' 2], ''z'') \<and>
   do_state (spyClient (\<lambda>p. False)) (memFile ''.pbmon'') (Inr window3) ''z'' disk0 =
     (None, ''c'',
      \<lparr>content = ''c'', offset = 1, calls = [mkPaste ''b'' 2, mkPaste ''c'' 3]\<rparr>)"
  using delta_gap_window_order [of window3 "''z''" "''.pbmon''" disk0]
  by (simp add: window3_def mkPaste_def disk0_def)

text \<open>
  The claim as written fails twice: the cursor variant returns c, b for the window
  c, b, a and the absent marker z, not b, c; and a cycle of the state-file variant on the
  one-paste window x with marker z ends with the marker still z.
\<close>

theorem delta_gap_not_as_stated:
  "list_all (\<lambda>p. Key p \<noteq> ''z'') window3 \<and>
   fetchNewPastes_cursor (Inr window3) ''z'' =
     (Inr [mkPaste ''c'' 3, mkPaste ''b'' 2], ''c'') \<and>
   fst (fetchNewPastes_cursor (Inr window3) ''z'') \<noteq>
     Inr (rev (take (length window3 - 1) window3)) \<and>
   do_state (spyClient (\<lambda>p. False)) (memFile ''.pbmon'') (Inr [mkPaste ''x'' 7]) ''z'' disk0 =
     (None, ''z'', disk0) \<and>
   ''z'' \<noteq> Key ([mkPaste ''x'' 7] ! 0)"
  by (simp add: fetchNewPastes_cursor_def fetchNewPastes_state_def do_state_def matchPos_def
        window3_def mkPaste_def)

text \<open>
  Claim C6 (idempotence). Let W be a non-empty window with unique keys (the invariant of
  a window in the data model). In the cursor variant, fetchNewPastes on W with the topKey
  that a first call on W left returns no pastes. In the state-file variant, after a
  \<open>do\<close> cycle on W that returned no error, fetchNewPastes on W with the topKey of that
  cycle returns no pastes, and a second \<open>do\<close> cycle on W changes nothing.
\<close>

theorem delta_idempotent:
  assumes "distinct (map Key W)" "W \<noteq> []"
  shows "fst (fetchNewPastes_cursor (Inr W) (snd (fetchNewPastes_cursor (Inr W) k))) = Inr [] \<and>
         (do_state cl f (Inr W) k w = (None, k', w') \<longrightarrow>
            fst (fetchNewPastes_state (Inr W) k') = Inr [] \<and>
            do_state cl f (Inr W) k' w' = (None, k', w'))"
proof (intro conjI impI)
  show "fst (fetchNewPastes_cursor (Inr W) (snd (fetchNewPastes_cursor (Inr W) k))) = Inr []"
    using assms by (simp add: cursor_marker_after same_window_nothing_new)
next
  assume run: "do_state cl f (Inr W) k w = (None, k', w')"
  from do_state_marker_after [OF run assms(2)]
  have new: "fetchNewPastes_state (Inr W) k' = (Inr [], k')"
  proof
    assume "k' = Key (W ! 0)"
    with assms show ?thesis by (simp add: same_window_nothing_new)
  next
    assume "k' = k \<and> w' = w \<and> k \<noteq> [] \<and> matchPos W k = 0"
    with assms(2) show ?thesis by (simp add: fetchNewPastes_state_def)
  qed
  then show "fst (fetchNewPastes_state (Inr W) k') = Inr []" by simp
  from new show "do_state cl f (Inr W) k' w' = (None, k', w')" by (simp add: do_state_def)
qed

theorem delta_idempotent_witness:
  "distinct (map Key window3) \<and> window3 \<noteq> [] \<and>
   fst (fetchNewPastes_cursor (Inr window3)
          (snd (fetchNewPastes_cursor (Inr window3) ''a''))) = Inr [] \<and>
   do_state (spyClient (\<lambda>p. False)) (memFile ''.pbmon'') (Inr window3) ''a'' disk0 =
     (None, ''c'',
      \<lparr>content = ''c'', offset = 1, calls = [mkPaste ''b'' 2, mkPaste ''c'' 3]\<rparr>) \<and>
   fst (fetchNewPastes_state (Inr window3) ''c'') = Inr [] \<and>
   do_state (spyClient (\<lambda>p. False)) (memFile ''.pbmon'') (Inr window3) ''c''
     \<lparr>content = ''c'', offset = 1, calls = [mkPaste ''b'' 2, mkPaste ''c'' 3]\<rparr> =
     (None, ''c'',
      \<lparr>content = ''c'', offset = 1, calls = [mkPaste ''b'' 2, mkPaste ''c'' 3]\<rparr>)"
proof -
  have run: "do_state (spyClient (\<lambda>p. False)) (memFile ''.pbmon'') (Inr window3) ''a'' disk0 =
     (None, ''c'',
      \<lparr>content = ''c'', offset = 1, calls = [mkPaste ''b'' 2, mkPaste ''c'' 3]\<rparr>)"
    by (simp add: do_state_def fetchNewPastes_state_def matchPos_def window3_def mkPaste_def
          disk0_def processPaste_def spyClient_def memFile_def memTruncate_def memSeek_def
          memWriteString_def numeral_2_eq_2)
  from delta_idempotent [OF window3_facts(2,1), of "''a''" "spyClient (\<lambda>p. False)"
      "memFile ''.pbmon''" disk0 "''c''"
      "\<lparr>content = ''c'', offset = 1, calls = [mkPaste ''b'' 2, mkPaste ''c'' 3]\<rparr>"] run
  show ?thesis by (simp add: window3_facts)
qed

section \<open>Dispatch order and the persisted marker\<close>






section \<open>The state file read back\<close>

lemma readState_mem:
  "readState memRead (reopen w) =
     (if content w = [] then (Inr [], reopen w)
      else (Inr (take 9 (content w) @ replicate (9 - length (content w)) (CHR 0x00)),
            w\<lparr>offset := min 9 (length (content w))\<rparr>))"
  by (auto simp: readState_def memRead_def reopen_def pasteIDLen_def Let_def min_def)

lemma persist_one:
  "\<not> fails p \<Longrightarrow>
   doLoop (spyClient fails) (memFile nm) [p] 1 k w =
     (None, Key p, \<lparr>content = Key p, offset = length (Key p), calls = calls w @ [p]\<rparr>)"
  using doLoop_spy_step [of fails nm "[p]" 0 k w] by simp

text \<open>
  Claim C10 (state-file round trip). Let the loop of \<open>do\<close> process one paste p whose
  callback succeeds: the file then holds exactly the key of p. Read back through a
  fresh handle, readState returns the key when it is pasteIDLen (9) bytes long; for an
  empty file it returns the empty string; for a key of 1 to 8 bytes it returns the key
  followed by zero bytes up to 9, which is not the key. For a non-empty key readState
  returns the key exactly when the key is 9 bytes long.
\<close>

theorem state_file_round_trip:
  assumes "\<not> fails p"
    and "doLoop (spyClient fails) (memFile nm) [p] 1 k w = (r, k', w')"
  shows "content w' = Key p \<and>
         (length (Key p) = pasteIDLen \<longrightarrow> fst (readState memRead (reopen w')) = Inr (Key p)) \<and>
         (content w = [] \<longrightarrow> fst (readState memRead (reopen w)) = Inr []) \<and>
         (0 < length (Key p) \<and> length (Key p) < pasteIDLen \<longrightarrow>
            fst (readState memRead (reopen w')) =
              Inr (Key p @ replicate (pasteIDLen - length (Key p)) (CHR 0x00)) \<and>
            fst (readState memRead (reopen w')) \<noteq> Inr (Key p)) \<and>
         (Key p \<noteq> [] \<longrightarrow>
            (fst (readState memRead (reopen w')) = Inr (Key p)) = (length (Key p) = pasteIDLen))"
proof -
  from assms persist_one [of fails p nm k w]
  have w': "w' = \<lparr>content = Key p, offset = length (Key p), calls = calls w @ [p]\<rparr>"
    by simp
  have rd: "fst (readState memRead (reopen w')) =
      (if Key p = [] then Inr []
       else Inr (take 9 (Key p) @ replicate (9 - length (Key p)) (CHR 0x00)))"
    unfolding readState_mem w' by simp
  have pad: "(take 9 (Key p) @ replicate (9 - length (Key p)) (CHR 0x00) = Key p) =
             (length (Key p) = 9)" if "Key p \<noteq> []"
  proof
    assume "take 9 (Key p) @ replicate (9 - length (Key p)) (CHR 0x00) = Key p"
    then have "length (take 9 (Key p) @ replicate (9 - length (Key p)) (CHR 0x00)) =
               length (Key p)" by simp
    then show "length (Key p) = 9" by (simp add: min_def split: if_splits)
  next
    assume "length (Key p) = 9"
    then show "take 9 (Key p) @ replicate (9 - length (Key p)) (CHR 0x00) = Key p" by simp
  qed
  show ?thesis
    using rd pad w' by (auto simp: pasteIDLen_def readState_mem)
qed

lemma persist_long:
  "doLoop (spyClient (\<lambda>p. False)) (memFile ''.pbmon'') [mkPaste ''Xa9bQ2LmZ'' (7::nat)] 1
       ''old'' disk0 =
     (None, ''Xa9bQ2LmZ'',
      \<lparr>content = ''Xa9bQ2LmZ'', offset = 9, calls = [mkPaste ''Xa9bQ2LmZ'' 7]\<rparr>)"
  using persist_one [of "\<lambda>p. False" "mkPaste ''Xa9bQ2LmZ'' (7::nat)" "''.pbmon''" "''old''" disk0]
  by (simp add: mkPaste_def disk0_def)

lemma persist_short:
  "doLoop (spyClient (\<lambda>p. False)) (memFile ''.pbmon'') [mkPaste ''abc'' (7::nat)] 1
       ''old'' disk0 =
     (None, ''abc'', \<lparr>content = ''abc'', offset = 3, calls = [mkPaste ''abc'' 7]\<rparr>)"
  using persist_one [of "\<lambda>p. False" "mkPaste ''abc'' (7::nat)" "''.pbmon''" "''old''" disk0]
  by (simp add: mkPaste_def disk0_def)

lemma key_facts:
  "Key (mkPaste ''Xa9bQ2LmZ'' (7::nat)) = ''Xa9bQ2LmZ''"
  "Key (mkPaste ''abc'' (7::nat)) = ''abc''"
  "length ''Xa9bQ2LmZ'' = pasteIDLen" "0 < length ''abc''" "length ''abc'' < pasteIDLen"
  "pasteIDLen - length ''abc'' = 6" "content disk0 = []"
  by (simp_all add: mkPaste_def pasteIDLen_def disk0_def)

theorem state_file_round_trip_witness:
  "\<not> (\<lambda>p::nat Paste. False) (mkPaste ''Xa9bQ2LmZ'' 7) \<and>
   doLoop (spyClient (\<lambda>p. False)) (memFile ''.pbmon'') [mkPaste ''Xa9bQ2LmZ'' 7] 1 ''old'' disk0 =
     (None, ''Xa9bQ2LmZ'',
      \<lparr>content = ''Xa9bQ2LmZ'', offset = 9, calls = [mkPaste ''Xa9bQ2LmZ'' 7]\<rparr>) \<and>
   length (Key (mkPaste ''Xa9bQ2LmZ'' (7::nat))) = pasteIDLen \<and>
   fst (readState memRead (reopen
     \<lparr>content = ''Xa9bQ2LmZ'', offset = 9, calls = [mkPaste ''Xa9bQ2LmZ'' (7::nat)]\<rparr>)) =
     Inr ''Xa9bQ2LmZ'' \<and>
   content disk0 = [] \<and> fst (readState memRead (reopen disk0)) = Inr [] \<and>
   doLoop (spyClient (\<lambda>p. False)) (memFile ''.pbmon'') [mkPaste ''abc'' 7] 1 ''old'' disk0 =
     (None, ''abc'', \<lparr>content = ''abc'', offset = 3, calls = [mkPaste ''abc'' 7]\<rparr>) \<and>
   0 < length (Key (mkPaste ''abc'' (7::nat))) \<and>
   length (Key (mkPaste ''abc'' (7::nat))) < pasteIDLen \<and>
   fst (readState memRead (reopen
     \<lparr>content = ''abc'', offset = 3, calls = [mkPaste ''abc'' (7::nat)]\<rparr>)) =
     Inr (''abc'' @ replicate 6 (CHR 0x00)) \<and>
   fst (readState memRead (reopen
     \<lparr>content = ''abc'', offset = 3, calls = [mkPaste ''abc'' (7::nat)]\<rparr>)) \<noteq> Inr ''abc''"
proof -
  have nf: "\<not> (\<lambda>p::nat Paste. False) q" for q by simp
  note long = state_file_round_trip [OF nf persist_long]
  note short = state_file_round_trip [OF nf persist_short]
  from long [THEN conjunct2, THEN conjunct1]
  have a: "fst (readState memRead (reopen
     \<lparr>content = ''Xa9bQ2LmZ'', offset = 9, calls = [mkPaste ''Xa9bQ2LmZ'' (7::nat)]\<rparr>)) =
     Inr ''Xa9bQ2LmZ''"
    by (simp only: key_facts simp_thms)
  from long [THEN conjunct2, THEN conjunct2, THEN conjunct1]
  have b: "fst (readState memRead (reopen disk0)) = Inr []"
    by (simp only: key_facts simp_thms)
  have hyp: "0 < length ''abc'' \<and> length ''abc'' < pasteIDLen"
    by (simp add: pasteIDLen_def)
  note c = short [THEN conjunct2, THEN conjunct2, THEN conjunct2, THEN conjunct1,
      unfolded key_facts(2,6), THEN mp, OF hyp]
  note c1 = c [THEN conjunct1] and c2 = c [THEN conjunct2]
  have k: "\<not> False"
    "length (Key (mkPaste ''Xa9bQ2LmZ'' (7::nat))) = pasteIDLen"
    "0 < length (Key (mkPaste ''abc'' (7::nat)))"
    "length (Key (mkPaste ''abc'' (7::nat))) < pasteIDLen"
    by (simp_all add: mkPaste_def pasteIDLen_def)
  from k persist_long a key_facts(7) b persist_short c1 c2 show ?thesis
    by (intro conjI)
qed

section \<open>Cache variant: classification\<close>

lemma cacheLoop_map_step:
  "cacheLoop mapCache ds (p # rest) new c =
     (if c (Key p) = Some (ds (Date p)) then cacheLoop mapCache ds rest new c
      else cacheLoop mapCache ds rest (new @ [p]) (c(Key p \<mapsto> ds (Date p))))"
  by (simp add: mapCache_def split: option.splits)

lemma cacheLoop_map_frame:
  "cacheLoop mapCache ds W new c = (r, c') \<Longrightarrow> k \<notin> Key ` set W \<Longrightarrow> c' k = c k"
proof (induction W arbitrary: new c)
  case Nil
  then show ?case by simp
next
  case (Cons p rest)
  from Cons.prems(2) have k: "k \<noteq> Key p" "k \<notin> Key ` set rest" by auto
  show ?case
  proof (cases "c (Key p) = Some (ds (Date p))")
    case True
    with Cons.prems(1) have "cacheLoop mapCache ds rest new c = (r, c')"
      by (simp add: cacheLoop_map_step del: cacheLoop.simps)
    from Cons.IH [OF this k(2)] show ?thesis .
  next
    case False
    with Cons.prems(1)
    have "cacheLoop mapCache ds rest (new @ [p]) (c(Key p \<mapsto> ds (Date p))) = (r, c')"
      by (simp add: cacheLoop_map_step del: cacheLoop.simps)
    from Cons.IH [OF this k(2)] k(1) show ?thesis by simp
  qed
qed

lemma cacheLoop_map_new:
  "distinct (map Key W) \<Longrightarrow>
   fst (cacheLoop mapCache ds W new c) =
     (new @ filter (\<lambda>q. c (Key q) \<noteq> Some (ds (Date q))) W, None)"
proof (induction W arbitrary: new c)
  case Nil
  then show ?case by simp
next
  case (Cons p rest)
  from Cons.prems have d: "distinct (map Key rest)" and ni: "Key p \<notin> Key ` set rest"
    by auto
  from ni have np: "\<forall>q\<in>set rest. Key q \<noteq> Key p"
    by (metis imageI)
  from np have same: "filter (\<lambda>q. (c(Key p \<mapsto> v)) (Key q) \<noteq> Some (ds (Date q))) rest =
                      filter (\<lambda>q. c (Key q) \<noteq> Some (ds (Date q))) rest" for v
    by (intro filter_cong) auto
  show ?case
  proof (cases "c (Key p) = Some (ds (Date p))")
    case True
    then show ?thesis
      by (simp add: cacheLoop_map_step Cons.IH [OF d] del: cacheLoop.simps)
  next
    case False
    then have "fst (cacheLoop mapCache ds (p # rest) new c) =
               fst (cacheLoop mapCache ds rest (new @ [p]) (c(Key p \<mapsto> ds (Date p))))"
      by (simp add: cacheLoop_map_step del: cacheLoop.simps)
    also have "\<dots> = ((new @ [p]) @
        filter (\<lambda>q. (c(Key p \<mapsto> ds (Date p))) (Key q) \<noteq> Some (ds (Date q))) rest, None)"
      by (rule Cons.IH [OF d])
    also have "\<dots> = (new @ filter (\<lambda>q. c (Key q) \<noteq> Some (ds (Date q))) (p # rest), None)"
      unfolding same using False by simp
    finally show ?thesis .
  qed
qed

lemma cacheLoop_map_recorded:
  "distinct (map Key W) \<Longrightarrow> cacheLoop mapCache ds W new c = (r, c') \<Longrightarrow>
   \<forall>p\<in>set W. c' (Key p) = Some (ds (Date p))"
proof (induction W arbitrary: new c)
  case Nil
  then show ?case by simp
next
  case (Cons p rest)
  from Cons.prems have d: "distinct (map Key rest)" and np: "Key p \<notin> Key ` set rest"
    by auto
  show ?case
  proof (cases "c (Key p) = Some (ds (Date p))")
    case True
    with Cons.prems(2) have run: "cacheLoop mapCache ds rest new c = (r, c')"
      by (simp add: cacheLoop_map_step del: cacheLoop.simps)
    from cacheLoop_map_frame [OF run np] True have "c' (Key p) = Some (ds (Date p))" by simp
    with Cons.IH [OF d run] show ?thesis by simp
  next
    case False
    with Cons.prems(2)
    have run: "cacheLoop mapCache ds rest (new @ [p]) (c(Key p \<mapsto> ds (Date p))) = (r, c')"
      by (simp add: cacheLoop_map_step del: cacheLoop.simps)
    from cacheLoop_map_frame [OF run np] have "c' (Key p) = Some (ds (Date p))" by simp
    with Cons.IH [OF d run] show ?thesis by simp
  qed
qed

lemma cacheLoop_map_seen:
  "\<forall>p\<in>set W. c (Key p) = Some (ds (Date p)) \<Longrightarrow>
   cacheLoop mapCache ds W new c = ((new, None), c)"
  by (induction W arbitrary: new) (simp_all add: cacheLoop_map_step del: cacheLoop.simps(2))

text \<open>
  Claim C5 (cache classification). With the cache a map from key to date string and no
  eviction: a paste whose key is absent is appended to newPastes and its key recorded
  with its date; a paste whose key is present with the same date is skipped and the
  cache left alone; a paste whose key is present with another date is appended and the
  entry overwritten. For a window W with unique keys, fetchNewPastes returns exactly
  the pastes whose (key, date) is not in the cache, afterwards every paste of W is
  recorded with its date, and a second call on W returns nothing; more generally a
  paste whose (key, date) is in the cache is never returned.
\<close>

theorem cache_classification:
  "(c (Key p) = None \<longrightarrow>
      cacheLoop mapCache ds (p # rest) new c =
        cacheLoop mapCache ds rest (new @ [p]) (c(Key p \<mapsto> ds (Date p)))) \<and>
   (c (Key p) = Some (ds (Date p)) \<longrightarrow>
      cacheLoop mapCache ds (p # rest) new c = cacheLoop mapCache ds rest new c) \<and>
   (c (Key p) = Some v \<and> v \<noteq> ds (Date p) \<longrightarrow>
      cacheLoop mapCache ds (p # rest) new c =
        cacheLoop mapCache ds rest (new @ [p]) (c(Key p \<mapsto> ds (Date p)))) \<and>
   (distinct (map Key W) \<and> fetchNewPastes_cache mapCache ds (Inr W) c = (r, c') \<longrightarrow>
      r = (filter (\<lambda>q. c (Key q) \<noteq> Some (ds (Date q))) W, None) \<and>
      (\<forall>q\<in>set W. c' (Key q) = Some (ds (Date q))) \<and>
      fetchNewPastes_cache mapCache ds (Inr W) c' = (([], None), c')) \<and>
   (distinct (map Key W) \<and> q \<in> set W \<and> c (Key q) = Some (ds (Date q)) \<longrightarrow>
      q \<notin> set (fst (fst (fetchNewPastes_cache mapCache ds (Inr W) c))))"
proof (intro conjI impI)
  show "cacheLoop mapCache ds (p # rest) new c =
        cacheLoop mapCache ds rest (new @ [p]) (c(Key p \<mapsto> ds (Date p)))"
    if "c (Key p) = None"
    using that by (simp add: cacheLoop_map_step del: cacheLoop.simps)
  show "cacheLoop mapCache ds (p # rest) new c = cacheLoop mapCache ds rest new c"
    if "c (Key p) = Some (ds (Date p))"
    using that by (simp add: cacheLoop_map_step del: cacheLoop.simps)
  show "cacheLoop mapCache ds (p # rest) new c =
        cacheLoop mapCache ds rest (new @ [p]) (c(Key p \<mapsto> ds (Date p)))"
    if "c (Key p) = Some v \<and> v \<noteq> ds (Date p)"
    using that by (auto simp add: cacheLoop_map_step simp del: cacheLoop.simps)
next
  assume h: "distinct (map Key W) \<and> fetchNewPastes_cache mapCache ds (Inr W) c = (r, c')"
  then have d: "distinct (map Key W)" and run: "cacheLoop mapCache ds W [] c = (r, c')"
    by (simp_all add: fetchNewPastes_cache_def)
  from cacheLoop_map_new [OF d, of ds "[]" c] run
  show "r = (filter (\<lambda>q. c (Key q) \<noteq> Some (ds (Date q))) W, None)" by simp
  from cacheLoop_map_recorded [OF d run]
  show rec: "\<forall>q\<in>set W. c' (Key q) = Some (ds (Date q))" .
  from cacheLoop_map_seen [OF rec, of "[]"]
  show "fetchNewPastes_cache mapCache ds (Inr W) c' = (([], None), c')"
    by (simp add: fetchNewPastes_cache_def)
next
  assume h: "distinct (map Key W) \<and> q \<in> set W \<and> c (Key q) = Some (ds (Date q))"
  then have d: "distinct (map Key W)" by simp
  from cacheLoop_map_new [OF d, of ds "[]" c] h
  show "q \<notin> set (fst (fst (fetchNewPastes_cache mapCache ds (Inr W) c)))"
    by (simp add: fetchNewPastes_cache_def)
qed

theorem cache_classification_witness:
  "Map.empty (Key (mkPaste ''a'' ''t1'')) = None \<and>
   cacheLoop mapCache (\<lambda>d. d) [mkPaste ''a'' ''t1''] [] Map.empty =
     (([mkPaste ''a'' ''t1''], None), [''a'' \<mapsto> ''t1'']) \<and>
   cacheLoop mapCache (\<lambda>d. d) [mkPaste ''a'' ''t1''] [] [''a'' \<mapsto> ''t1''] =
     (([], None), [''a'' \<mapsto> ''t1'']) \<and>
   ''t0'' \<noteq> ''t1'' \<and>
   cacheLoop mapCache (\<lambda>d. d) [mkPaste ''a'' ''t1''] [] [''a'' \<mapsto> ''t0''] =
     (([mkPaste ''a'' ''t1''], None), [''a'' \<mapsto> ''t1'']) \<and>
   distinct (map Key [mkPaste ''b'' ''t2'', mkPaste ''a'' ''t1'']) \<and>
   fetchNewPastes_cache mapCache (\<lambda>d. d) (Inr [mkPaste ''b'' ''t2'', mkPaste ''a'' ''t1''])
       [''a'' \<mapsto> ''t0''] =
     (([mkPaste ''b'' ''t2'', mkPaste ''a'' ''t1''], None),
      [''a'' \<mapsto> ''t0'', ''b'' \<mapsto> ''t2'', ''a'' \<mapsto> ''t1'']) \<and>
   fetchNewPastes_cache mapCache (\<lambda>d. d) (Inr [mkPaste ''b'' ''t2'', mkPaste ''a'' ''t1''])
       [''a'' \<mapsto> ''t0'', ''b'' \<mapsto> ''t2'', ''a'' \<mapsto> ''t1''] =
     (([], None), [''a'' \<mapsto> ''t0'', ''b'' \<mapsto> ''t2'', ''a'' \<mapsto> ''t1'']) \<and>
   mkPaste ''a'' ''t1'' \<in> set [mkPaste ''b'' ''t2'', mkPaste ''a'' ''t1''] \<and>
   mkPaste ''a'' ''t1'' \<notin> set (fst (fst (fetchNewPastes_cache mapCache (\<lambda>d. d)
       (Inr [mkPaste ''b'' ''t2'', mkPaste ''a'' ''t1'']) [''a'' \<mapsto> ''t1''])))"
proof -
  let ?a = "mkPaste ''a'' ''t1''" and ?b = "mkPaste ''b'' ''t2''"
  have run: "fetchNewPastes_cache mapCache (\<lambda>d. d) (Inr [?b, ?a]) [''a'' \<mapsto> ''t0''] =
     (([?b, ?a], None), [''a'' \<mapsto> ''t0'', ''b'' \<mapsto> ''t2'', ''a'' \<mapsto> ''t1''])"
    by (simp add: fetchNewPastes_cache_def mapCache_def mkPaste_def)
  note absent = cache_classification [where c = Map.empty and p = ?a and ds = "\<lambda>d. d"
      and rest = "[]" and new = "[]" and W = "[]"]
  note same = cache_classification [where c = "[''a'' \<mapsto> ''t1'']" and p = ?a
      and ds = "\<lambda>d. d" and rest = "[]" and new = "[]" and W = "[?b, ?a]" and q = ?a]
  note changed = cache_classification [where c = "[''a'' \<mapsto> ''t0'']" and p = ?a
      and ds = "\<lambda>d. d" and rest = "[]" and new = "[]" and v = "''t0''" and W = "[?b, ?a]"
      and r = "([?b, ?a], None)"
      and c' = "[''a'' \<mapsto> ''t0'', ''b'' \<mapsto> ''t2'', ''a'' \<mapsto> ''t1'']"]
  from absent have 1: "cacheLoop mapCache (\<lambda>d. d) [?a] [] Map.empty =
     (([?a], None), [''a'' \<mapsto> ''t1''])"
    by (simp add: mkPaste_def)
  from same have 2: "cacheLoop mapCache (\<lambda>d. d) [?a] [] [''a'' \<mapsto> ''t1''] =
     (([], None), [''a'' \<mapsto> ''t1''])"
    and 5: "?a \<notin> set (fst (fst (fetchNewPastes_cache mapCache (\<lambda>d. d)
       (Inr [?b, ?a]) [''a'' \<mapsto> ''t1''])))"
    by (simp_all add: mkPaste_def)
  from changed run have 3: "cacheLoop mapCache (\<lambda>d. d) [?a] [] [''a'' \<mapsto> ''t0''] =
     (([?a], None), [''a'' \<mapsto> ''t1''])"
    and 4: "fetchNewPastes_cache mapCache (\<lambda>d. d) (Inr [?b, ?a])
       [''a'' \<mapsto> ''t0'', ''b'' \<mapsto> ''t2'', ''a'' \<mapsto> ''t1''] =
     (([], None), [''a'' \<mapsto> ''t0'', ''b'' \<mapsto> ''t2'', ''a'' \<mapsto> ''t1''])"
    by (simp_all add: mkPaste_def)
  from 1 2 3 4 5 run show ?thesis by (simp add: mkPaste_def)
qed

section \<open>Errors end the poll loop\<close>

text \<open>
  Loud runs compose: a run without error followed by a loud run is loud, and wrapping
  the error keeps its cause. Every loop of the monitor is loud in the world where calls
  fail by plan.
\<close>

lemma loud_none: "loud w r w"
  by (auto simp: loud_def)

lemma loud_attempt: "attempt w = (r, w') \<Longrightarrow> loud w r w'"
  by (auto simp: loud_def attempt_def less_Suc_eq_le)

lemma loud_wrap: "loud w (Some e) w' \<Longrightarrow> loud w (Some (Errorf pre e)) w'"
  by (auto simp: loud_def)

lemma loud_trans: "loud w None w1 \<Longrightarrow> loud w1 r w2 \<Longrightarrow> loud w r w2"
  unfolding loud_def
  by (metis le_trans not_le option.distinct(1))

lemma processPaste_loud: "processPaste flakyClient p w = (r, w') \<Longrightarrow> loud w r w'"
proof -
  assume run: "processPaste flakyClient p w = (r, w')"
  obtain r1 w1 where a: "attempt w = (r1, w1)" by fastforce
  show ?thesis
  proof (cases r1)
    case None
    with a run have "attempt w1 = (r, w')"
      by (simp add: processPaste_def flakyClient_def)
    from loud_trans [OF loud_attempt [OF a [unfolded None]] loud_attempt [OF this]]
    show ?thesis .
  next
    case (Some e)
    with a run have "r = Some (Errorf ''pastebin.GetRaw'' e)" "w' = w1"
      by (simp_all add: processPaste_def flakyClient_def)
    with loud_wrap [OF loud_attempt [OF a [unfolded Some]]] show ?thesis by simp
  qed
qed


lemma doLoop_loud:
  "doLoop flakyClient flakyFile ps n k w = (r, k', w') \<Longrightarrow> loud w r w'"
proof (induction n arbitrary: k w)
  case 0
  then show ?case by (simp add: loud_none)
next
  case (Suc i)
  obtain r1 w1 where s1: "processPaste flakyClient (ps ! i) w = (r1, w1)" by fastforce
  obtain r2 w2 where s2: "attempt w1 = (r2, w2)" by fastforce
  obtain r3 w3 where s3: "attempt w2 = (r3, w3)" by fastforce
  obtain r4 w4 where s4: "attempt w3 = (r4, w4)" by fastforce
  note l1 = processPaste_loud [OF s1]
  note l2 = loud_attempt [OF s2]
  note l3 = loud_attempt [OF s3]
  note l4 = loud_attempt [OF s4]
  show ?case
  proof (cases r1)
    case (Some e)
    with Suc.prems s1 have "r = Some (Errorf ''process paste'' e)" "w' = w1" by simp_all
    with l1 Some show ?thesis by (simp add: loud_wrap)
  next
    case n1: None
    show ?thesis
    proof (cases r2)
      case (Some e)
      with Suc.prems s1 s2 n1
      have "r = Some (Errorf (''truncate '' @ Name flakyFile) e)" "w' = w2"
        by (simp_all add: flakyFile_def)
      with l1 l2 n1 Some show ?thesis by (auto intro: loud_trans loud_wrap)
    next
      case n2: None
      show ?thesis
      proof (cases r3)
        case (Some e)
        with Suc.prems s1 s2 s3 n1 n2
        have "r = Some (Errorf (''seek to the beginning of '' @ Name flakyFile) e)" "w' = w3"
          by (simp_all add: flakyFile_def)
        with l1 l2 l3 n1 n2 Some show ?thesis by (auto intro: loud_trans loud_wrap)
      next
        case n3: None
        show ?thesis
        proof (cases r4)
          case (Some e)
          with Suc.prems s1 s2 s3 s4 n1 n2 n3
          have "r = Some (Errorf (''save state to '' @ Name flakyFile) e)" "w' = w4"
            by (simp_all add: flakyFile_def)
          with l1 l2 l3 l4 n1 n2 n3 Some show ?thesis by (auto intro: loud_trans loud_wrap)
        next
          case n4: None
          with Suc.prems s1 s2 s3 s4 n1 n2 n3
          have "doLoop flakyClient flakyFile ps i (Key (ps ! i)) w4 = (r, k', w')"
            by (simp add: flakyFile_def)
          from Suc.IH [OF this] have rest: "loud w4 r w'" .
          from l1 n1 have a1: "loud w None w1" by simp
          from l2 n2 have a2: "loud w1 None w2" by simp
          from l3 n3 have a3: "loud w2 None w3" by simp
          from l4 n4 have a4: "loud w3 None w4" by simp
          show ?thesis
            by (rule loud_trans [OF a1 loud_trans [OF a2 loud_trans [OF a3
                  loud_trans [OF a4 rest]]]])
        qed
      qed
    qed
  qed
qed

lemma do_state_loud:
  "do_state flakyClient flakyFile fetched k w = (r, k', w') \<Longrightarrow> loud w r w'"
  by (auto simp: do_state_def loud_none split: prod.splits sum.splits dest: doLoop_loud)

lemma Do_state_loud:
  "Do_state flakyClient flakyFile feed k w = (r, k', w') \<Longrightarrow> loud w r w'"
proof (induction feed arbitrary: k w)
  case Nil
  then show ?case by (simp add: loud_none)
next
  case (Cons fetched later)
  obtain r1 k1 w1 where c: "do_state flakyClient flakyFile fetched k w = (r1, k1, w1)"
    by (metis prod_cases3)
  show ?case
  proof (cases r1)
    case None
    with Cons.prems c have "Do_state flakyClient flakyFile later k1 w1 = (r, k', w')" by simp
    from loud_trans [OF do_state_loud [OF c [unfolded None]] Cons.IH [OF this]]
    show ?thesis .
  next
    case (Some e)
    with Cons.prems c do_state_loud [OF c] show ?thesis by simp
  qed
qed

lemma processRange_loud: "processRange flakyClient ps w = (r, w') \<Longrightarrow> loud w r w'"
proof (induction ps arbitrary: w)
  case Nil
  then show ?case by (simp add: loud_none)
next
  case (Cons p ps)
  obtain r1 w1 where s1: "processPaste flakyClient p w = (r1, w1)" by fastforce
  show ?case
  proof (cases r1)
    case None
    with Cons.prems s1 have "processRange flakyClient ps w1 = (r, w')" by simp
    from loud_trans [OF processPaste_loud [OF s1 [unfolded None]] Cons.IH [OF this]]
    show ?thesis .
  next
    case (Some e)
    with Cons.prems s1 processPaste_loud [OF s1] show ?thesis by simp
  qed
qed

lemma ticks_cache_loud:
  "ticks_cache bc ds flakyClient feed c w = (r, c', w') \<Longrightarrow> loud w r w'"
proof (induction feed arbitrary: c w)
  case Nil
  then show ?case by (simp add: loud_none)
next
  case (Cons fetched later)
  obtain ps e1 c1 where f: "fetchNewPastes_cache bc ds fetched c = ((ps, e1), c1)"
    by (metis surj_pair)
  obtain r2 w2 where p: "processRange flakyClient ps w = (r2, w2)" by fastforce
  show ?case
  proof (cases e1)
    case (Some e)
    with Cons.prems f show ?thesis by (simp add: loud_none)
  next
    case n1: None
    show ?thesis
    proof (cases r2)
      case (Some e)
      with Cons.prems f p n1 processRange_loud [OF p] show ?thesis by simp
    next
      case None
      with Cons.prems f p n1 have "ticks_cache bc ds flakyClient later c1 w2 = (r, c', w')"
        by simp
      from loud_trans [OF processRange_loud [OF p [unfolded None]] Cons.IH [OF this]]
      show ?thesis .
    qed
  qed
qed

lemma Do_cache_loud:
  "Do_cache bc ds flakyClient feed c w = (r, c', w') \<Longrightarrow> loud w r w'"
proof (cases feed)
  case Nil
  assume "Do_cache bc ds flakyClient feed c w = (r, c', w')"
  with Nil show ?thesis by (simp add: loud_none)
next
  case (Cons fetched later)
  assume run: "Do_cache bc ds flakyClient feed c w = (r, c', w')"
  obtain ps e1 c1 where f: "fetchNewPastes_cache bc ds fetched c = ((ps, e1), c1)"
    by (metis surj_pair)
  show ?thesis
  proof (cases e1)
    case (Some e)
    with run Cons f show ?thesis by (simp add: loud_none)
  next
    case None
    with run Cons f have "ticks_cache bc ds flakyClient later c1 w = (r, c', w')" by simp
    then show ?thesis by (rule ticks_cache_loud)
  qed
qed

lemma Do_state_append:
  "Do_state cl f (xs @ ys) k w =
     (case Do_state cl f xs k w of
        (Some e, s) \<Rightarrow> (Some e, s)
      | (None, k1, w1) \<Rightarrow> Do_state cl f ys k1 w1)"
  by (induction xs arbitrary: k w) (auto split: prod.splits option.splits)

lemma ticks_cache_append:
  "ticks_cache bc ds cl (xs @ ys) c w =
     (case ticks_cache bc ds cl xs c w of
        (Some e, s) \<Rightarrow> (Some e, s)
      | (None, c1, w1) \<Rightarrow> ticks_cache bc ds cl ys c1 w1)"
  by (induction xs arbitrary: c w) (auto split: prod.splits option.splits)

lemma Do_cache_stop:
  "Do_cache bc ds cl xs c w = (Some e, s) \<Longrightarrow> Do_cache bc ds cl (xs @ ys) c w = (Some e, s)"
  by (cases xs) (auto simp: ticks_cache_append split: prod.splits option.splits)

lemma Do_cache_next:
  "Do_cache bc ds cl xs c w = (None, c1, w1) \<Longrightarrow>
   fetchNewPastes_cache bc ds fetched c1 = ((ps, Some e), c2) \<Longrightarrow>
   Do_cache bc ds cl (xs @ fetched # ys) c w = (Some e, c2, w1)"
  by (cases xs) (auto simp: ticks_cache_append split: prod.splits option.splits)

lemma run_first:
  "Do_state (spyClient (\<lambda>p. False)) (memFile ''.pbmon'') [Inr window3] [] disk0 =
     (None, ''c'', disk0)"
  by (simp add: do_state_def fetchNewPastes_state_def window3_def mkPaste_def)

lemma run_empty:
  "Do_state (spyClient (\<lambda>p. False)) (memFile ''.pbmon'') [Inr window3, Inr []] [] disk0 =
     (Some (Errorf ''fetch pastes'' (Error ''no pastes available'')), ''c'', disk0)"
  by (simp add: do_state_def fetchNewPastes_state_def window3_def mkPaste_def)

lemma run_flaky_state:
  "Do_state flakyClient flakyFile [Inr window3] ''a'' \<lparr>clock = 0, plan = failThird\<rparr> =
     (Some (Errorf ''truncate .pbmon'' (Error ''i/o error'')), ''a'',
      \<lparr>clock = 3, plan = failThird\<rparr>)"
  by (simp add: do_state_def fetchNewPastes_state_def matchPos_def window3_def mkPaste_def
        processPaste_def flakyClient_def flakyFile_def attempt_def failThird_def
        numeral_2_eq_2 numeral_3_eq_3)

lemma run_cache_first:
  "Do_cache mapCache (\<lambda>d. d) (spyClient (\<lambda>p. False))
     [Inr [mkPaste ''b'' ''t2'', mkPaste ''a'' ''t1'']] Map.empty
     \<lparr>content = [], offset = 0, calls = []\<rparr> =
     (None, [''b'' \<mapsto> ''t2'', ''a'' \<mapsto> ''t1''], \<lparr>content = [], offset = 0, calls = []\<rparr>)"
  by (simp add: fetchNewPastes_cache_def mapCache_def mkPaste_def)

lemma run_cache_flaky:
  "Do_cache mapCache (\<lambda>d. d) flakyClient
     [Inr [], Inr [mkPaste ''b'' ''t2'', mkPaste ''a'' ''t1'']] Map.empty
     \<lparr>clock = 0, plan = failThird\<rparr> =
     (Some (Errorf ''pastebin.GetRaw'' (Error ''i/o error'')),
      [''b'' \<mapsto> ''t2'', ''a'' \<mapsto> ''t1''], \<lparr>clock = 3, plan = failThird\<rparr>)"
  by (simp add: fetchNewPastes_cache_def mapCache_def mkPaste_def
        processPaste_def flakyClient_def attempt_def failThird_def
        numeral_2_eq_2 numeral_3_eq_3)

lemma run_cache_timeout:
  "Do_cache mapCache (\<lambda>d. d) (spyClient (\<lambda>p. False)) [Inl (Error ''timeout'')] Map.empty
     \<lparr>content = [], offset = 0, calls = []::string Paste list\<rparr> =
     (Some (Error ''timeout''), Map.empty, \<lparr>content = [], offset = 0, calls = []\<rparr>)"
  by (simp add: fetchNewPastes_cache_def)


lemma plan_facts:
  "clock \<lparr>clock = 0, plan = failThird\<rparr> \<le> 2"
  "2 < clock \<lparr>clock = 3, plan = failThird\<rparr>"
  "plan \<lparr>clock = 0, plan = failThird\<rparr> 2 = Some (Error ''i/o error'')"
  by (simp_all add: failThird_def)

lemma stub_facts:
  "cacheGet (stubCache (Inl (Error ''corrupt'')) None) (Key (mkPaste ''a'' ''t1'')) () =
     Inl (Error ''corrupt'')"
  "Error ''corrupt'' \<noteq> ErrEntryNotFound"
  "cacheGet (stubCache (Inl ErrEntryNotFound) (Some (Error ''entry too big'')))
     (Key (mkPaste ''a'' ''t1'')) () = Inl ErrEntryNotFound"
  "cacheSet (stubCache (Inl ErrEntryNotFound) (Some (Error ''entry too big'')))
     (Key (mkPaste ''a'' ''t1'')) ((\<lambda>d. d) (Date (mkPaste ''a'' ''t1''))) () =
     (Some (Error ''entry too big''), ())"
  "cacheGet (stubCache (Inr ''t0'') (Some (Error ''entry too big'')))
     (Key (mkPaste ''a'' ''t1'')) () = Inr ''t0''"
  "''t0'' \<noteq> (\<lambda>d. d) (Date (mkPaste ''a'' ''t1''))"
  "cacheSet (stubCache (Inr ''t0'') (Some (Error ''entry too big'')))
     (Key (mkPaste ''a'' ''t1'')) ((\<lambda>d. d) (Date (mkPaste ''a'' ''t1''))) () =
     (Some (Error ''entry too big''), ())"
  by (simp_all add: stubCache_def mkPaste_def)

text \<open>
  Claim C8 (fail-loud poll loop). State-file variant: an error of recent comes out of
  \<open>do\<close> wrapped as "fetch pastes: recent pastes: ..."; when the cycles so far returned
  no error and the next cycle returns one, Do returns that error with the state of that
  cycle, whatever later ticks would have fetched; once Do has returned an error, no
  later tick changes its result. In the world where calls fail by plan, whenever a call
  made during Do (GetRaw, the callback, Truncate, Seek, WriteString) fails, it is the
  last call Do makes and Do returns an error whose cause is that failure: nothing is
  retried and no paste is skipped. Cache variant: an error of recent, of the cache's
  Get (other than ErrEntryNotFound) and of its Set ends fetchNewPastes with that error;
  Do returns the error of fetchNewPastes and stops; and a failing GetRaw or callback is
  the last call Do makes and the cause of the error it returns.
\<close>

theorem fail_loud:
  "do_state cl f (Inl e) k w =
     (Some (Errorf ''fetch pastes'' (Errorf ''recent pastes'' e)), k, w) \<and>
   (Do_state cl f before k w = (None, kmid, wmid) \<and> do_state cl f fetched kmid wmid = (Some e, s) \<longrightarrow>
      Do_state cl f (before @ fetched # later) k w = (Some e, s)) \<and>
   (Do_state cl f before k w = (Some e, s) \<longrightarrow>
      Do_state cl f (before @ later) k w = (Some e, s)) \<and>
   (Do_state flakyClient flakyFile feed k fw = (r, k', fw') \<and>
    clock fw \<le> n \<and> n < clock fw' \<and> plan fw n = Some e \<longrightarrow>
      Suc n = clock fw' \<and> (\<exists>e'. r = Some e' \<and> cause e' = cause e)) \<and>
   fetchNewPastes_cache bc ds (Inl e) c = (([], Some e), c) \<and>
   (cacheGet bc (Key p) c = Inl e \<and> e \<noteq> ErrEntryNotFound \<longrightarrow>
      cacheLoop bc ds (p # rest) new c = ((new, Some e), c)) \<and>
   (cacheGet bc (Key p) c = Inl ErrEntryNotFound \<and>
    cacheSet bc (Key p) (ds (Date p)) c = (Some e, cmid) \<longrightarrow>
      cacheLoop bc ds (p # rest) new c = ((new, Some e), cmid)) \<and>
   (cacheGet bc (Key p) c = Inr v \<and> v \<noteq> ds (Date p) \<and>
    cacheSet bc (Key p) (ds (Date p)) c = (Some e, cmid) \<longrightarrow>
      cacheLoop bc ds (p # rest) new c = ((new, Some e), cmid)) \<and>
   (Do_cache bc ds cl before c w = (None, cmid, wmid) \<and>
    fetchNewPastes_cache bc ds fetched cmid = ((ps, Some e), cnext) \<longrightarrow>
      Do_cache bc ds cl (before @ fetched # later) c w = (Some e, cnext, wmid)) \<and>
   (Do_cache bc ds cl before c w = (Some e, sc) \<longrightarrow>
      Do_cache bc ds cl (before @ later) c w = (Some e, sc)) \<and>
   (Do_cache bc ds flakyClient feed c fw = (r, c', fw') \<and>
    clock fw \<le> n \<and> n < clock fw' \<and> plan fw n = Some e \<longrightarrow>
      Suc n = clock fw' \<and> (\<exists>e'. r = Some e' \<and> cause e' = cause e))"
proof (intro conjI impI)
  show "do_state cl f (Inl e) k w =
     (Some (Errorf ''fetch pastes'' (Errorf ''recent pastes'' e)), k, w)"
    by (simp add: do_state_def fetchNewPastes_state_def)
  show "Do_state cl f (before @ fetched # later) k w = (Some e, s)"
    if "Do_state cl f before k w = (None, kmid, wmid) \<and> do_state cl f fetched kmid wmid = (Some e, s)"
    using that by (cases s) (simp add: Do_state_append)
  show "Do_state cl f (before @ later) k w = (Some e, s)"
    if "Do_state cl f before k w = (Some e, s)"
    using that by (simp add: Do_state_append)
  show "fetchNewPastes_cache bc ds (Inl e) c = (([], Some e), c)"
    by (simp add: fetchNewPastes_cache_def)
  show "cacheLoop bc ds (p # rest) new c = ((new, Some e), c)"
    if "cacheGet bc (Key p) c = Inl e \<and> e \<noteq> ErrEntryNotFound"
    using that by simp
  show "cacheLoop bc ds (p # rest) new c = ((new, Some e), cmid)"
    if "cacheGet bc (Key p) c = Inl ErrEntryNotFound \<and>
        cacheSet bc (Key p) (ds (Date p)) c = (Some e, cmid)"
    using that by simp
  show "cacheLoop bc ds (p # rest) new c = ((new, Some e), cmid)"
    if "cacheGet bc (Key p) c = Inr v \<and> v \<noteq> ds (Date p) \<and>
        cacheSet bc (Key p) (ds (Date p)) c = (Some e, cmid)"
    using that by simp
  show "Do_cache bc ds cl (before @ fetched # later) c w = (Some e, cnext, wmid)"
    if "Do_cache bc ds cl before c w = (None, cmid, wmid) \<and>
        fetchNewPastes_cache bc ds fetched cmid = ((ps, Some e), cnext)"
    using that by (simp add: Do_cache_next)
  show "Do_cache bc ds cl (before @ later) c w = (Some e, sc)"
    if "Do_cache bc ds cl before c w = (Some e, sc)"
    using that by (rule Do_cache_stop)
next
  assume h: "Do_state flakyClient flakyFile feed k fw = (r, k', fw') \<and>
    clock fw \<le> n \<and> n < clock fw' \<and> plan fw n = Some e"
  then have "loud fw r fw'" by (blast intro: Do_state_loud)
  with h show "Suc n = clock fw'" "\<exists>e'. r = Some e' \<and> cause e' = cause e"
    unfolding loud_def by blast+
next
  assume h: "Do_cache bc ds flakyClient feed c fw = (r, c', fw') \<and>
    clock fw \<le> n \<and> n < clock fw' \<and> plan fw n = Some e"
  then have "loud fw r fw'" by (blast intro: Do_cache_loud)
  with h show "Suc n = clock fw'" "\<exists>e'. r = Some e' \<and> cause e' = cause e"
    unfolding loud_def by blast+
qed

theorem fail_loud_witness:
  "Do_state (spyClient (\<lambda>p. False)) (memFile ''.pbmon'') [Inr window3] [] disk0 =
     (None, ''c'', disk0) \<and>
   do_state (spyClient (\<lambda>p. False)) (memFile ''.pbmon'') (Inl (Error ''timeout'')) ''c'' disk0 =
     (Some (Errorf ''fetch pastes'' (Errorf ''recent pastes'' (Error ''timeout''))), ''c'', disk0) \<and>
   Do_state (spyClient (\<lambda>p. False)) (memFile ''.pbmon'')
       ([Inr window3] @ Inl (Error ''timeout'') # [Inr window3]) [] disk0 =
     (Some (Errorf ''fetch pastes'' (Errorf ''recent pastes'' (Error ''timeout''))), ''c'', disk0) \<and>
   Do_state (spyClient (\<lambda>p. False)) (memFile ''.pbmon'') [Inr window3, Inr []] [] disk0 =
     (Some (Errorf ''fetch pastes'' (Error ''no pastes available'')), ''c'', disk0) \<and>
   Do_state (spyClient (\<lambda>p. False)) (memFile ''.pbmon'')
       ([Inr window3, Inr []] @ [Inr window3]) [] disk0 =
     (Some (Errorf ''fetch pastes'' (Error ''no pastes available'')), ''c'', disk0) \<and>
   Do_state flakyClient flakyFile [Inr window3] ''a'' \<lparr>clock = 0, plan = failThird\<rparr> =
     (Some (Errorf ''truncate .pbmon'' (Error ''i/o error'')), ''a'',
      \<lparr>clock = 3, plan = failThird\<rparr>) \<and>
   clock \<lparr>clock = 0, plan = failThird\<rparr> \<le> 2 \<and>
   2 < clock \<lparr>clock = 3, plan = failThird\<rparr> \<and>
   plan \<lparr>clock = 0, plan = failThird\<rparr> 2 = Some (Error ''i/o error'') \<and>
   Suc 2 = clock \<lparr>clock = 3, plan = failThird\<rparr> \<and>
   (\<exists>e'. Some (Errorf ''truncate .pbmon'' (Error ''i/o error'')) = Some e' \<and>
         cause e' = cause (Error ''i/o error'')) \<and>
   cacheLoop (stubCache (Inl (Error ''corrupt'')) None) (\<lambda>d. d) [mkPaste ''a'' ''t1''] [] () =
     (([], Some (Error ''corrupt'')), ()) \<and>
   cacheLoop (stubCache (Inl ErrEntryNotFound) (Some (Error ''entry too big''))) (\<lambda>d. d)
       [mkPaste ''a'' ''t1''] [] () =
     (([], Some (Error ''entry too big'')), ()) \<and>
   cacheLoop (stubCache (Inr ''t0'') (Some (Error ''entry too big''))) (\<lambda>d. d)
       [mkPaste ''a'' ''t1''] [] () =
     (([], Some (Error ''entry too big'')), ()) \<and>
   Do_cache mapCache (\<lambda>d. d) (spyClient (\<lambda>p. False))
       [Inr [mkPaste ''b'' ''t2'', mkPaste ''a'' ''t1'']] Map.empty
       \<lparr>content = [], offset = 0, calls = []\<rparr> =
     (None, [''b'' \<mapsto> ''t2'', ''a'' \<mapsto> ''t1''], \<lparr>content = [], offset = 0, calls = []\<rparr>) \<and>
   fetchNewPastes_cache mapCache (\<lambda>d. d) (Inl (Error ''timeout''))
       [''b'' \<mapsto> ''t2'', ''a'' \<mapsto> ''t1''] =
     (([]::string Paste list, Some (Error ''timeout'')), [''b'' \<mapsto> ''t2'', ''a'' \<mapsto> ''t1'']) \<and>
   Do_cache mapCache (\<lambda>d. d) (spyClient (\<lambda>p. False))
       ([Inr [mkPaste ''b'' ''t2'', mkPaste ''a'' ''t1'']] @ Inl (Error ''timeout'') #
        [Inr [mkPaste ''b'' ''t2'', mkPaste ''a'' ''t1'']]) Map.empty
       \<lparr>content = [], offset = 0, calls = []\<rparr> =
     (Some (Error ''timeout''), [''b'' \<mapsto> ''t2'', ''a'' \<mapsto> ''t1''],
      \<lparr>content = [], offset = 0, calls = []\<rparr>) \<and>
   Do_cache mapCache (\<lambda>d. d) (spyClient (\<lambda>p. False)) [Inl (Error ''timeout'')] Map.empty
       \<lparr>content = [], offset = 0, calls = []::string Paste list\<rparr> =
     (Some (Error ''timeout''), Map.empty, \<lparr>content = [], offset = 0, calls = []\<rparr>) \<and>
   Do_cache mapCache (\<lambda>d. d) (spyClient (\<lambda>p. False))
       ([Inl (Error ''timeout'')] @ [Inr [mkPaste ''b'' ''t2'', mkPaste ''a'' ''t1'']]) Map.empty
       \<lparr>content = [], offset = 0, calls = []\<rparr> =
     (Some (Error ''timeout''), Map.empty, \<lparr>content = [], offset = 0, calls = []\<rparr>) \<and>
   Do_cache mapCache (\<lambda>d. d) flakyClient
       [Inr [], Inr [mkPaste ''b'' ''t2'', mkPaste ''a'' ''t1'']] Map.empty
       \<lparr>clock = 0, plan = failThird\<rparr> =
     (Some (Errorf ''pastebin.GetRaw'' (Error ''i/o error'')),
      [''b'' \<mapsto> ''t2'', ''a'' \<mapsto> ''t1''], \<lparr>clock = 3, plan = failThird\<rparr>) \<and>
   (\<exists>e'. Some (Errorf ''pastebin.GetRaw'' (Error ''i/o error'')) = Some e' \<and>
         cause e' = cause (Error ''i/o error''))"
proof -
  let ?spy = "spyClient (\<lambda>p::nat Paste. False)"
  let ?spyS = "spyClient (\<lambda>p::string Paste. False)"
  let ?f = "memFile ''.pbmon'' :: nat disk stateFile"
  let ?dS = "\<lparr>content = [], offset = 0, calls = []::string Paste list\<rparr>"
  let ?pa = "mkPaste ''a'' ''t1''" and ?pb = "mkPaste ''b'' ''t2''"
  let ?cm = "[''b'' \<mapsto> ''t2'', ''a'' \<mapsto> ''t1'']"
  let ?fw = "\<lparr>clock = 0, plan = failThird\<rparr>" and ?fw' = "\<lparr>clock = 3, plan = failThird\<rparr>"
  let ?Efetch = "Errorf ''fetch pastes'' (Errorf ''recent pastes'' (Error ''timeout''))"
  let ?Eempty = "Errorf ''fetch pastes'' (Error ''no pastes available'')"
  let ?big = "Some (Error ''entry too big'')"
  note fetch = fail_loud [where cl = ?spy and f = ?f and e = "Error ''timeout''"
      and k = "''c''" and w = disk0, THEN conjunct1]
  note next_state = fail_loud [where cl = ?spy and f = ?f and before = "[Inr window3]"
      and k = "[]" and w = disk0 and kmid = "''c''" and wmid = disk0
      and fetched = "Inl (Error ''timeout'')" and e = ?Efetch and s = "(''c'', disk0)"
      and later = "[Inr window3]",
      THEN conjunct2, THEN conjunct1, THEN mp, OF conjI [OF run_first fetch]]
  note stop_state = fail_loud [where cl = ?spy and f = ?f
      and before = "[Inr window3, Inr []]" and k = "[]" and w = disk0 and e = ?Eempty
      and s = "(''c'', disk0)" and later = "[Inr window3]",
      THEN conjunct2, THEN conjunct2, THEN conjunct1, THEN mp, OF run_empty]
  note loud_state = fail_loud [where feed = "[Inr window3]" and k = "''a''" and fw = ?fw
      and r = "Some (Errorf ''truncate .pbmon'' (Error ''i/o error''))" and k' = "''a''"
      and fw' = ?fw' and n = 2 and e = "Error ''i/o error''",
      THEN conjunct2, THEN conjunct2, THEN conjunct2, THEN conjunct1, THEN mp,
      OF conjI [OF run_flaky_state conjI [OF plan_facts(1) conjI [OF plan_facts(2,3)]]]]
  note rest = conjunct2 [THEN conjunct2, THEN conjunct2, THEN conjunct2, THEN conjunct2]
  note get_err = fail_loud [where bc = "stubCache (Inl (Error ''corrupt'')) None"
      and p = ?pa and c = "()" and e = "Error ''corrupt''" and ds = "\<lambda>d. d"
      and rest = "[]" and new = "[]",
      THEN rest, THEN conjunct1, THEN mp, OF conjI [OF stub_facts(1,2)]]
  note set_err = fail_loud [where bc = "stubCache (Inl ErrEntryNotFound) ?big"
      and p = ?pa and c = "()" and e = "Error ''entry too big''" and ds = "\<lambda>d. d"
      and rest = "[]" and new = "[]" and cmid = "()",
      THEN rest, THEN conjunct2, THEN conjunct1, THEN mp, OF conjI [OF stub_facts(3,4)]]
  note upd_err = fail_loud [where bc = "stubCache (Inr ''t0'') ?big"
      and p = ?pa and c = "()" and e = "Error ''entry too big''" and ds = "\<lambda>d. d"
      and rest = "[]" and new = "[]" and cmid = "()" and v = "''t0''",
      THEN rest, THEN conjunct2, THEN conjunct2, THEN conjunct1, THEN mp,
      OF conjI [OF stub_facts(5) conjI [OF stub_facts(6,7)]]]
  note rest3 = rest [THEN conjunct2, THEN conjunct2, THEN conjunct2]
  note fetch_cache = fail_loud [where bc = mapCache and ds = "\<lambda>d. d"
      and e = "Error ''timeout''" and c = ?cm,
      THEN conjunct2, THEN conjunct2, THEN conjunct2, THEN conjunct2, THEN conjunct1]
  note next_cache = fail_loud [where bc = mapCache and ds = "\<lambda>d. d" and cl = ?spyS
      and before = "[Inr [?pb, ?pa]]" and c = Map.empty and w = ?dS and cmid = ?cm
      and wmid = ?dS and fetched = "Inl (Error ''timeout'')" and ps = "[]"
      and e = "Error ''timeout''" and cnext = ?cm and later = "[Inr [?pb, ?pa]]",
      THEN rest3, THEN conjunct1, THEN mp,
      OF conjI [OF run_cache_first fetch_cache]]
  note stop_cache = fail_loud [where bc = mapCache and ds = "\<lambda>d. d" and cl = ?spyS
      and before = "[Inl (Error ''timeout'')]" and c = Map.empty and w = ?dS
      and e = "Error ''timeout''" and sc = "(Map.empty, ?dS)" and later = "[Inr [?pb, ?pa]]",
      THEN rest3, THEN conjunct2, THEN conjunct1, THEN mp,
      OF run_cache_timeout]
  note loud_cache = fail_loud [where bc = mapCache and ds = "\<lambda>d. d"
      and feed = "[Inr [], Inr [?pb, ?pa]]" and c = Map.empty and fw = ?fw
      and r = "Some (Errorf ''pastebin.GetRaw'' (Error ''i/o error''))" and c' = ?cm
      and fw' = ?fw' and n = 2 and e = "Error ''i/o error''",
      THEN rest3, THEN conjunct2, THEN conjunct2, THEN mp,
      OF conjI [OF run_cache_flaky conjI [OF plan_facts(1) conjI [OF plan_facts(2,3)]]]]
  from run_first fetch next_state run_empty stop_state run_flaky_state plan_facts
    loud_state [THEN conjunct1] loud_state [THEN conjunct2]
    get_err set_err upd_err run_cache_first fetch_cache next_cache run_cache_timeout
    stop_cache run_cache_flaky loud_cache [THEN conjunct2]
  show ?thesis by (intro conjI)
qed

section \<open>The first call of Do\<close>

lemma Do_cursor_first_call: "snd (snd (Do_cursor cl [fetched] k w)) = w"
  by (simp split: prod.splits sum.splits)

lemma Do_cache_first_call: "snd (snd (Do_cache bc ds cl [fetched] c w)) = w"
  by (simp split: prod.splits option.splits)

lemma cache_window_facts:
  "distinct (map Key [mkPaste ''b'' ''t2'', mkPaste ''a'' ''t1''])"
  "distinct (map Key [mkPaste ''d'' ''t4'', mkPaste ''b'' ''t2'', mkPaste ''a'' ''t1''])"
  "mkPaste ''b'' ''t2'' \<in> set [mkPaste ''b'' ''t2'', mkPaste ''a'' ''t1'']"
  "mkPaste ''a'' ''t1'' \<in> set [mkPaste ''b'' ''t2'', mkPaste ''a'' ''t1'']"
  "filter (\<lambda>q. Map.empty (Key q) \<noteq> Some (Date q)) [mkPaste ''b'' ''t2'', mkPaste ''a'' ''t1''] =
     [mkPaste ''b'' ''t2'', mkPaste ''a'' ''t1'']"
  by (simp_all add: mkPaste_def)

text \<open>
  Claim C9 (the first call discards what it detects). Whatever the first
  fetchNewPastes of Do returns, in the cursor variant and in the cache variant, the
  world is untouched when the first call is over: neither GetRaw nor the callback was
  called. In the cache variant with a map cache and a window W of unique keys, the
  first call returns the pastes of W that the cache does not hold, records every paste
  of W with its date, and returns no error; a tick that fetches W again dispatches
  nothing; and as long as these entries stay in the cache no paste of W (same key, same
  date) is returned for any later window of unique keys.
\<close>

theorem initial_call_discards:
  assumes "distinct (map Key W)"
    and "Do_cache mapCache ds cl [Inr W] c w = (r, c', w')"
  shows "snd (snd (Do_cursor cl [fetched] k w)) = w \<and>
         snd (snd (Do_cache bc ds cl [fetched] c0 w)) = w \<and>
         r = None \<and> w' = w \<and>
         fetchNewPastes_cache mapCache ds (Inr W) c =
           ((filter (\<lambda>q. c (Key q) \<noteq> Some (ds (Date q))) W, None), c') \<and>
         (\<forall>p\<in>set W. c' (Key p) = Some (ds (Date p))) \<and>
         Do_cache mapCache ds cl [Inr W, Inr W] c w = (None, c', w) \<and>
         (distinct (map Key W2) \<longrightarrow>
            (\<forall>p\<in>set W. p \<notin> set (fst (fst (fetchNewPastes_cache mapCache ds (Inr W2) c')))))"
proof -
  obtain x where run: "cacheLoop mapCache ds W [] c = (x, c')"
    using assms(2) by (auto simp: fetchNewPastes_cache_def split: prod.splits option.splits)
  from cacheLoop_map_new [OF assms(1), of ds "[]" c] run
  have x: "x = (filter (\<lambda>q. c (Key q) \<noteq> Some (ds (Date q))) W, None)" by simp
  with run have first: "fetchNewPastes_cache mapCache ds (Inr W) c =
           ((filter (\<lambda>q. c (Key q) \<noteq> Some (ds (Date q))) W, None), c')"
    by (simp add: fetchNewPastes_cache_def)
  with assms(2) have rw: "r = None" "w' = w" by simp_all
  from cacheLoop_map_recorded [OF assms(1) run]
  have rec: "\<forall>p\<in>set W. c' (Key p) = Some (ds (Date p))" .
  from cacheLoop_map_seen [OF rec, of "[]"]
  have again: "fetchNewPastes_cache mapCache ds (Inr W) c' = (([], None), c')"
    by (simp add: fetchNewPastes_cache_def)
  from first again have twice: "Do_cache mapCache ds cl [Inr W, Inr W] c w = (None, c', w)"
    by simp
  have later: "\<forall>p\<in>set W. p \<notin> set (fst (fst (fetchNewPastes_cache mapCache ds (Inr W2) c')))"
    if d2: "distinct (map Key W2)"
    using cacheLoop_map_new [OF d2, of ds "[]" c'] rec
    by (simp add: fetchNewPastes_cache_def)
  from rw first rec twice later show ?thesis
    by (simp add: Do_cursor_first_call Do_cache_first_call
          del: Do_cursor.simps Do_cache.simps)
qed

theorem initial_call_discards_witness:
  "distinct (map Key [mkPaste ''b'' ''t2'', mkPaste ''a'' ''t1'']) \<and>
   Do_cache mapCache (\<lambda>d. d) (spyClient (\<lambda>p. False))
       [Inr [mkPaste ''b'' ''t2'', mkPaste ''a'' ''t1'']] Map.empty
       \<lparr>content = [], offset = 0, calls = []\<rparr> =
     (None, [''b'' \<mapsto> ''t2'', ''a'' \<mapsto> ''t1''], \<lparr>content = [], offset = 0, calls = []\<rparr>) \<and>
   snd (snd (Do_cursor (spyClient (\<lambda>p. False))
       [Inr [mkPaste ''b'' ''t2'', mkPaste ''a'' ''t1'']] ''a''
       \<lparr>content = [], offset = 0, calls = []\<rparr>)) =
     \<lparr>content = [], offset = 0, calls = []\<rparr> \<and>
   snd (snd (Do_cache mapCache (\<lambda>d. d) (spyClient (\<lambda>p. False))
       [Inr [mkPaste ''b'' ''t2'', mkPaste ''a'' ''t1'']] Map.empty
       \<lparr>content = [], offset = 0, calls = []\<rparr>)) =
     \<lparr>content = [], offset = 0, calls = []\<rparr> \<and>
   fetchNewPastes_cache mapCache (\<lambda>d. d) (Inr [mkPaste ''b'' ''t2'', mkPaste ''a'' ''t1''])
       Map.empty =
     (([mkPaste ''b'' ''t2'', mkPaste ''a'' ''t1''], None), [''b'' \<mapsto> ''t2'', ''a'' \<mapsto> ''t1'']) \<and>
   [''b'' \<mapsto> ''t2'', ''a'' \<mapsto> ''t1''] (Key (mkPaste ''b'' ''t2'')) =
     Some (Date (mkPaste ''b'' ''t2'')) \<and>
   [''b'' \<mapsto> ''t2'', ''a'' \<mapsto> ''t1''] (Key (mkPaste ''a'' ''t1'')) =
     Some (Date (mkPaste ''a'' ''t1'')) \<and>
   Do_cache mapCache (\<lambda>d. d) (spyClient (\<lambda>p. False))
       [Inr [mkPaste ''b'' ''t2'', mkPaste ''a'' ''t1''],
        Inr [mkPaste ''b'' ''t2'', mkPaste ''a'' ''t1'']] Map.empty
       \<lparr>content = [], offset = 0, calls = []\<rparr> =
     (None, [''b'' \<mapsto> ''t2'', ''a'' \<mapsto> ''t1''], \<lparr>content = [], offset = 0, calls = []\<rparr>) \<and>
   distinct (map Key [mkPaste ''d'' ''t4'', mkPaste ''b'' ''t2'', mkPaste ''a'' ''t1'']) \<and>
   mkPaste ''b'' ''t2'' \<notin> set (fst (fst (fetchNewPastes_cache mapCache (\<lambda>d. d)
       (Inr [mkPaste ''d'' ''t4'', mkPaste ''b'' ''t2'', mkPaste ''a'' ''t1''])
       [''b'' \<mapsto> ''t2'', ''a'' \<mapsto> ''t1'']))) \<and>
   mkPaste ''a'' ''t1'' \<notin> set (fst (fst (fetchNewPastes_cache mapCache (\<lambda>d. d)
       (Inr [mkPaste ''d'' ''t4'', mkPaste ''b'' ''t2'', mkPaste ''a'' ''t1''])
       [''b'' \<mapsto> ''t2'', ''a'' \<mapsto> ''t1''])))"
proof -
  let ?spyS = "spyClient (\<lambda>p::string Paste. False)"
  let ?dS = "\<lparr>content = [], offset = 0, calls = []::string Paste list\<rparr>"
  let ?pa = "mkPaste ''a'' ''t1''" and ?pb = "mkPaste ''b'' ''t2''"
  note all = initial_call_discards [OF cache_window_facts(1) run_cache_first,
      where fetched = "Inr [?pb, ?pa]" and k = "''a''" and bc = mapCache and ?c0.0 = Map.empty
      and ?W2.0 = "[mkPaste ''d'' ''t4'', ?pb, ?pa]"]
  note t1 = all [THEN conjunct1]
  note t2 = all [THEN conjunct2, THEN conjunct1]
  note from5 = all [THEN conjunct2, THEN conjunct2, THEN conjunct2, THEN conjunct2]
  note t5 = from5 [THEN conjunct1, unfolded cache_window_facts(5)]
  note t6 = from5 [THEN conjunct2, THEN conjunct1]
  note t7 = from5 [THEN conjunct2, THEN conjunct2, THEN conjunct1]
  note t8 = from5 [THEN conjunct2, THEN conjunct2, THEN conjunct2, THEN mp,
      OF cache_window_facts(2)]
  from cache_window_facts(1) run_cache_first t1 t2 t5
    t6 [THEN bspec, OF cache_window_facts(3)] t6 [THEN bspec, OF cache_window_facts(4)]
    t7 cache_window_facts(2)
    t8 [THEN bspec, OF cache_window_facts(3)] t8 [THEN bspec, OF cache_window_facts(4)]
  show ?thesis by (intro conjI)
qed

end
